(* ===== verification/Go_Prelude.thy ===== *)
theory Go_Prelude
  imports Main "HOL-Library.Word" "HOL-Library.AList"
begin

text \<open>
  The Go constructs that every component of the development shares: the outcome of a Go call
  (a value, a run-time panic, or the end of the process), errors as values, byte slices and
  \<open>copy\<close>, closing a channel, wait groups, and Go maps as association lists whose keys are
  distinct.  The collections \<open>go_simps\<close> and \<open>map_simps\<close> hold the rewrite rules the component
  proofs use.
\<close>

named_theorems go_simps \<open>unfolding of the Go run-time helpers\<close>
named_theorems map_simps \<open>rewriting of Go map operations\<close>

section \<open>Outcomes of Go calls\<close>

type_synonym byte = "8 word"

text \<open>
  The error values of the sources: those of \<open>types/errors.go\<close>, those of the standard library that
  the code returns or tests for, error numbers (known by name), system-call errors
  (\<open>os.SyscallError\<close>: the system call and the name of the error number), and every other error,
  known by its text, alone or wrapping another.
\<close>

datatype err =
    ErrUnknownNetwork | ErrMissingAddr | ErrAlreadyInUse | ErrUnexpectedNil
  | ErrClosedSuperConn | ErrListenQueueExceeded
  | EOF | DeadlineExceeded | ErrUnsupported
  | Errno string
  | SyscallError string string
  | ErrMsg string
  | ErrWrap string err

datatype go_panic =
    NilDereference | IndexOutOfRange | SliceOutOfRange | NegativeWaitGroup
  | CloseOfClosedChannel | BadTypeAssertion | PanicMsg string

text \<open>
  A call returns a value, panics, or ends the process (\<open>os.Exit\<close>, with the exit code).
\<close>

datatype 'a go = Ret 'a | Panic go_panic | Exit nat

fun go_bind :: "'a go \<Rightarrow> ('a \<Rightarrow> 'b go) \<Rightarrow> 'b go" where
  "go_bind (Ret x) f = f x"
| "go_bind (Panic p) f = Panic p"
| "go_bind (Exit n) f = Exit n"

lemma go_bind_Ret_iff: "go_bind m f = Ret y \<longleftrightarrow> (\<exists>x. m = Ret x \<and> f x = Ret y)"
  by (cases m) auto

lemma go_bind_Ret_right [simp]: "go_bind m Ret = m"
  by (cases m) auto

lemma go_bind_assoc: "go_bind (go_bind m f) g = go_bind m (\<lambda>x. go_bind (f x) g)"
  by (cases m) auto

section \<open>Byte slices\<close>

text \<open>
  \<open>copy(dst, src)\<close> overwrites the first \<open>min(len(dst), len(src))\<close> elements of \<open>dst\<close> and returns
  that number.  The model returns the number and the new content of \<open>dst\<close>.
\<close>

definition go_copy :: "'a list \<Rightarrow> 'a list \<Rightarrow> nat \<times> 'a list" where
  "go_copy dst src =
     (let n = min (length dst) (length src) in (n, take n src @ drop n dst))"

lemma go_copy_count: "fst (go_copy dst src) = min (length dst) (length src)"
  by (simp add: go_copy_def Let_def)

lemma go_copy_length [simp]: "length (snd (go_copy dst src)) = length dst"
  by (simp add: go_copy_def Let_def)

lemma go_copy_prefix: "take (fst (go_copy dst src)) (snd (go_copy dst src)) = take (length dst) src"
  by (auto simp: go_copy_def Let_def min_def)

lemma go_copy_rest: "drop (fst (go_copy dst src)) (snd (go_copy dst src)) = drop (fst (go_copy dst src)) dst"
  by (simp add: go_copy_def Let_def)

lemma go_copy_all: "length src \<le> length dst \<Longrightarrow> fst (go_copy dst src) = length src"
  by (simp add: go_copy_count)

text \<open>\<open>b[:n]\<close>, for a slice whose capacity is its length; \<open>n\<close> is an \<open>int\<close> and may be anything.\<close>

definition slice_to :: "'a list \<Rightarrow> int \<Rightarrow> 'a list go" where
  "slice_to b n =
     (if 0 \<le> n \<and> n \<le> int (length b) then Ret (take (nat n) b) else Panic SliceOutOfRange)"

lemma slice_to_ok [simp]: "n \<le> length b \<Longrightarrow> slice_to b (int n) = Ret (take n b)"
  by (simp add: slice_to_def)

lemma slice_to_RetD: "slice_to b n = Ret c \<Longrightarrow> 0 \<le> n \<and> n \<le> int (length b) \<and> c = take (nat n) b"
  by (simp add: slice_to_def split: if_splits)

text \<open>\<open>b[i]\<close> with its bounds check.\<close>

definition go_index :: "'a list \<Rightarrow> nat \<Rightarrow> 'a go" where
  "go_index b i = (if i < length b then Ret (b ! i) else Panic IndexOutOfRange)"

lemma go_index_ok [simp]: "i < length b \<Longrightarrow> go_index b i = Ret (b ! i)"
  by (simp add: go_index_def)

lemma go_index_bad [simp]: "length b \<le> i \<Longrightarrow> go_index b i = Panic IndexOutOfRange"
  by (simp add: go_index_def)

section \<open>Channels and wait groups\<close>

text \<open>A signalling channel is the flag \<open>closed\<close>; closing it twice panics.\<close>

definition chan_close :: "bool \<Rightarrow> bool go" where
  "chan_close closed = (if closed then Panic CloseOfClosedChannel else Ret True)"

text \<open>\<open>sync.WaitGroup\<close>: a counter that must not become negative.\<close>

definition wg_add :: "int \<Rightarrow> int \<Rightarrow> int go" where
  "wg_add c d = (if c + d < 0 then Panic NegativeWaitGroup else Ret (c + d))"

abbreviation wg_done :: "int \<Rightarrow> int go" where
  "wg_done c \<equiv> wg_add c (-1)"

lemma chan_close_open [go_simps]: "chan_close False = Ret True"
  by (simp add: chan_close_def)

lemma chan_close_Ret: "chan_close c = Ret d \<longleftrightarrow> \<not> c \<and> d"
  by (auto simp: chan_close_def)

lemma wg_add_ok [go_simps]: "0 \<le> c + d \<Longrightarrow> wg_add c d = Ret (c + d)"
  by (simp add: wg_add_def)

lemma wg_add_Ret: "wg_add c d = Ret e \<longleftrightarrow> 0 \<le> c + d \<and> e = c + d"
  by (auto simp: wg_add_def)

section \<open>Go maps\<close>

text \<open>
  A Go map is an association list with distinct keys, so that \<open>len(m)\<close> is its length.  Insertion
  is \<^const>\<open>AList.update\<close>, deletion \<^const>\<open>AList.delete\<close>, lookup \<^const>\<open>map_of\<close>.
\<close>

type_synonym ('k, 'v) go_map = "('k \<times> 'v) list"

abbreviation map_wf :: "('k, 'v) go_map \<Rightarrow> bool" where
  "map_wf m \<equiv> distinct (map fst m)"

lemma map_wf_update [map_simps]: "map_wf m \<Longrightarrow> map_wf (AList.update k v m)"
  by (rule AList.distinct_update)

lemma map_wf_delete [map_simps]: "map_wf m \<Longrightarrow> map_wf (AList.delete k m)"
  by (rule AList.distinct_delete)

lemma lookup_update [map_simps]:
  "map_of (AList.update k v m) k' = (if k' = k then Some v else map_of m k')"
  by (simp add: AList.update_conv')

lemma lookup_delete [map_simps]:
  "map_of (AList.delete k m) k' = (if k' = k then None else map_of m k')"
  by (simp add: AList.delete_conv')

lemma update_fresh: "map_of m k = None \<Longrightarrow> AList.update k v m = m @ [(k, v)]"
  by (induction m) (auto split: if_splits)

lemma length_delete_present:
  "map_wf m \<Longrightarrow> map_of m k = Some v \<Longrightarrow> Suc (length (AList.delete k m)) = length m"
proof (induction m)
  case Nil
  then show ?case by simp
next
  case (Cons x m)
  then show ?case
    by (cases x) (force simp: AList.delete_eq image_iff intro!: arg_cong [of _ _ length] filter_True)
qed

lemma delete_conv_set: "set (AList.delete k m) = {x \<in> set m. fst x \<noteq> k}"
  by (auto simp: AList.delete_eq)

text \<open>Deleting a key removes exactly the value stored under it.\<close>

lemma map_wf_unique: "map_wf m \<Longrightarrow> (k, v) \<in> set m \<Longrightarrow> (k, w) \<in> set m \<Longrightarrow> v = w"
  by (rule eq_key_imp_eq_value)

lemma snd_delete:
  assumes "map_wf m" and "distinct (map snd m)" and "(k, v) \<in> set m"
  shows "snd ` set (AList.delete k m) = snd ` set m - {v}"
proof -
  have "snd x = v \<longleftrightarrow> fst x = k" if x: "x \<in> set m" for x
  proof
    assume "snd x = v"
    moreover have "inj_on snd (set m)"
      using assms(2) by (simp add: distinct_map)
    ultimately have "x = (k, v)"
      using inj_onD [of snd "set m" x "(k, v)"] x assms(3) by simp
    then show "fst x = k" by simp
  next
    assume "fst x = k"
    then have "(k, snd x) = x" by auto
    with x have "(k, snd x) \<in> set m" by simp
    then show "snd x = v"
      using map_wf_unique [OF assms(1,3)] by simp
  qed
  then show ?thesis
    unfolding delete_conv_set by blast
qed

lemma distinct_snd_delete: "distinct (map snd m) \<Longrightarrow> distinct (map snd (AList.delete k m))"
  by (simp add: AList.delete_eq distinct_map_filter)

section \<open>Other lemmas on lists\<close>

lemma sum_list_update_nat:
  fixes f :: "'a \<Rightarrow> nat"
  assumes "i < length xs"
  shows "sum_list (map f (xs[i := x])) + f (xs ! i) = sum_list (map f xs) + f x"
  using assms
proof (induction xs arbitrary: i)
  case Nil
  then show ?case by simp
next
  case (Cons y ys)
  then show ?case by (cases i) auto
qed

lemma sum_list_nth_le_nat:
  fixes f :: "'a \<Rightarrow> nat"
  shows "i < length xs \<Longrightarrow> f (xs ! i) \<le> sum_list (map f xs)"
  by (simp add: member_le_sum_list)

lemma sum_list_pos_nat:
  fixes f :: "'a \<Rightarrow> nat"
  shows "0 < sum_list (map f xs) \<longleftrightarrow> (\<exists>x \<in> set xs. 0 < f x)"
  by (induction xs) auto

lemma count_list_remove1:
  "count_list (remove1 a xs) b = count_list xs b - (if a = b then 1 else 0)"
  by (induction xs) (auto simp: count_list_0_iff)

lemma count_list_pos: "0 < count_list xs a \<longleftrightarrow> a \<in> set xs"
  using count_list_0_iff [of xs a] by auto

lemma count_list_remove1_mem:
  "a \<in> set xs \<Longrightarrow> count_list (remove1 a xs) x + (if x = a then 1 else 0) = count_list xs x"
  by (induction xs) auto

lemma map_of_distinct_snd:
  assumes "distinct (map snd m)" and "map_of m k = Some v" and "map_of m k' = Some v"
  shows "k = k'"
  using assms(2,3) [THEN map_of_SomeD] assms(1)
  by (metis (no_types, lifting) distinct_map inj_onD prod.inject snd_conv)

section \<open>Invariants of step relations\<close>

text \<open>A predicate that every step keeps holds in every state a run reaches.\<close>

locale step_invariant =
  fixes step :: "'s \<Rightarrow> 's \<Rightarrow> bool" and inv :: "'s \<Rightarrow> bool"
  assumes step_inv: "inv s \<Longrightarrow> step s t \<Longrightarrow> inv t"
begin

lemma steps_inv: "step\<^sup>*\<^sup>* s t \<Longrightarrow> inv s \<Longrightarrow> inv t"
  by (induction rule: rtranclp_induct) (auto intro: step_inv)

lemma steps_from: "inv s \<Longrightarrow> step\<^sup>*\<^sup>* s t \<Longrightarrow> step t u \<Longrightarrow> inv t \<and> inv u"
  using steps_inv step_inv by blast

end

end
