(* ===== verification/Udp_Types.thy ===== *)
theory Udp_Types
  imports Go_Prelude
begin

unbundle bit_operations_syntax

text \<open>
  The package \<open>types\<close>: the ECN codepoints with their conversions to and from the two header bits
  (\<open>types/ecn.go\<close>), the capability bit set of a connection (\<open>types/raw_conn.go\<close>), and what the
  code observes of a \<open>net.Addr\<close>.
\<close>

section \<open>ECN codepoints (types/ecn.go)\<close>

text \<open>\<open>ECN\<close> is a \<open>uint8\<close>; its constants count up from zero.\<close>

type_synonym ECN = "8 word"

definition ECNUnsupported :: ECN where "ECNUnsupported = 0"
definition ECNNon :: ECN where "ECNNon = 1"
definition ECT1 :: ECN where "ECT1 = 2"
definition ECT0 :: ECN where "ECT0 = 3"
definition ECNCE :: ECN where "ECNCE = 4"

lemmas ECN_defs = ECNUnsupported_def ECNNon_def ECT1_def ECT0_def ECNCE_def

definition ParseECNHeaderBits :: "byte \<Rightarrow> ECN go" where
  "ParseECNHeaderBits bits =
     (if bits = 0 then Ret ECNNon
      else if bits = 2 then Ret ECT0
      else if bits = 1 then Ret ECT1
      else if bits = 3 then Ret ECNCE
      else Panic (PanicMsg ''invalid ECN bits''))"

definition ToHeaderBits :: "ECN \<Rightarrow> byte go" where
  "ToHeaderBits e =
     (if e = ECNNon then Ret 0
      else if e = ECT0 then Ret 2
      else if e = ECT1 then Ret 1
      else if e = ECNCE then Ret 3
      else Panic (PanicMsg ''ECN unsupported''))"

text \<open>Decimal digits of an unsigned number, as \<open>%d\<close> prints them.\<close>

fun digits10 :: "nat \<Rightarrow> string" where
  "digits10 n =
     (if n < 10 then [char_of (48 + n)] else digits10 (n div 10) @ [char_of (48 + n mod 10)])"

declare digits10.simps [simp del]

definition ECN_String :: "ECN \<Rightarrow> string" where
  "ECN_String e =
     (if e = ECNUnsupported then ''ECN unsupported''
      else if e = ECNNon then ''Not-ECT''
      else if e = ECT1 then ''ECT(1)''
      else if e = ECT0 then ''ECT(0)''
      else if e = ECNCE then ''CE''
      else ''invalid ECN value: '' @ digits10 (unat e))"

lemma ecn_mask_cases: "(b::byte) AND 3 = 0 \<or> b AND 3 = 1 \<or> b AND 3 = 2 \<or> b AND 3 = 3"
proof -
  have "unat (b AND 3) \<le> unat (3::byte)"
    by (rule word_and_le1 [THEN word_le_nat_alt [THEN iffD1]])
  then have "unat (b AND 3) \<le> 3" by simp
  then have "unat (b AND 3) = unat (0::byte) \<or> unat (b AND 3) = unat (1::byte)
      \<or> unat (b AND 3) = unat (2::byte) \<or> unat (b AND 3) = unat (3::byte)"
    by (simp, arith)
  then show ?thesis
    by (simp only: word_unat_eq_iff)
qed

lemma ToHeaderBits_defined: "ToHeaderBits e = Ret b \<Longrightarrow> e \<in> {ECNNon, ECT0, ECT1, ECNCE} \<and> b AND 3 = b"
  by (auto simp: ToHeaderBits_def ECN_defs split: if_splits)

lemma Parse_ToHeaderBits: "ToHeaderBits e = Ret b \<Longrightarrow> ParseECNHeaderBits b = Ret e"
  by (auto simp: ToHeaderBits_def ParseECNHeaderBits_def ECN_defs split: if_splits)

lemma ParseECN_masked: "\<exists>e. ParseECNHeaderBits (b AND 3) = Ret e \<and> ToHeaderBits e = Ret (b AND 3)"
  using ecn_mask_cases [of b] by (auto simp: ParseECNHeaderBits_def ToHeaderBits_def ECN_defs)

lemma digits10_nonempty: "digits10 n \<noteq> []"
  by (subst digits10.simps) simp

section \<open>Connection capabilities (types/raw\_conn.go)\<close>

text \<open>\<open>ConnCapabilities\<close> is an \<open>int\<close>, 64 bits wide on the supported platforms, used as a bit set.\<close>

type_synonym ConnCapabilities = "64 word"

definition ConnCapabilityDontFragment :: ConnCapabilities where
  "ConnCapabilityDontFragment = push_bit 0 1"

definition ConnCapabilityGSO :: ConnCapabilities where
  "ConnCapabilityGSO = push_bit 1 1"

definition ConnCapabilityECN :: ConnCapabilities where
  "ConnCapabilityECN = push_bit 2 1"

lemmas cap_defs = ConnCapabilityDontFragment_def ConnCapabilityGSO_def ConnCapabilityECN_def

definition cap_DF :: "ConnCapabilities \<Rightarrow> bool" where
  "cap_DF c \<longleftrightarrow> c AND ConnCapabilityDontFragment \<noteq> 0"

definition cap_GSO :: "ConnCapabilities \<Rightarrow> bool" where
  "cap_GSO c \<longleftrightarrow> c AND ConnCapabilityGSO \<noteq> 0"

definition cap_ECN :: "ConnCapabilities \<Rightarrow> bool" where
  "cap_ECN c \<longleftrightarrow> c AND ConnCapabilityECN \<noteq> 0"

definition NewConnCapabilities :: "bool \<Rightarrow> bool \<Rightarrow> bool \<Rightarrow> ConnCapabilities" where
  "NewConnCapabilities df gso ecn =
     (let val = 0;
          val = (if df then val OR ConnCapabilityDontFragment else val);
          val = (if gso then val OR ConnCapabilityGSO else val);
          val = (if ecn then val OR ConnCapabilityECN else val)
      in val)"

lemma caps_of_New [simp]:
  "cap_DF (NewConnCapabilities df gso ecn) = df"
  "cap_GSO (NewConnCapabilities df gso ecn) = gso"
  "cap_ECN (NewConnCapabilities df gso ecn) = ecn"
  by (simp_all add: cap_DF_def cap_GSO_def cap_ECN_def NewConnCapabilities_def cap_defs Let_def)

section \<open>Network addresses\<close>

text \<open>
  A \<open>net.Addr\<close> is an interface value.  The code calls \<open>String()\<close> on it and asserts that it is a
  \<open>*net.UDPAddr\<close>, whose \<open>IP\<close> it then inspects; the record holds the results of these operations,
  so that it stands for a value of any implementation.  A nil interface is \<open>None\<close>.
\<close>

record net_addr =
  addr_String :: string
  addr_UDP :: "byte list option"

text \<open>\<open>net.IP.To4\<close>: the four-byte form of an IPv4 address, nil for other addresses.\<close>

definition To4 :: "byte list \<Rightarrow> byte list option" where
  "To4 ip =
     (if length ip = 4 then Some ip
      else if length ip = 16 \<and> take 12 ip = replicate 10 0 @ [255, 255] then Some (drop 12 ip)
      else None)"

lemma To4_length: "To4 ip = Some v \<Longrightarrow> length v = 4"
  by (auto simp: To4_def split: if_splits)

text \<open>\<open>net.IP.IsUnspecified\<close>: the address \<open>0.0.0.0\<close> or \<open>::\<close>.\<close>

definition IsUnspecified :: "byte list \<Rightarrow> bool" where
  "IsUnspecified ip \<longleftrightarrow> To4 ip = Some [0, 0, 0, 0] \<or> ip = replicate 16 0"

text \<open>
  C24: The ECN conversions invert each other.  Every codepoint that \<open>ToHeaderBits\<close> accepts is
  recovered by \<open>ParseECNHeaderBits\<close>, its bits fit the two-bit mask, and parsing any traffic-class
  byte under the mask never panics and loses none of its two bits.
\<close>

theorem ecn_roundtrip:
  "(\<forall>e b. ToHeaderBits e = Ret b \<longrightarrow> ParseECNHeaderBits b = Ret e \<and> b AND 3 = b)
   \<and> (\<exists>e. ParseECNHeaderBits (tos AND 3) = Ret e \<and> ToHeaderBits e = Ret (tos AND 3))"
  using Parse_ToHeaderBits ToHeaderBits_defined ParseECN_masked by blast

theorem ecn_roundtrip_witness:
  "ParseECNHeaderBits 3 = Ret ECNCE \<and> (\<exists>e. ParseECNHeaderBits (186 AND 3) = Ret e \<and> ToHeaderBits e = Ret (186 AND 3))"
  using ecn_roundtrip [of 186] by (simp add: ToHeaderBits_def ECN_defs)

end
