(* ===== verification/Ring_Queue.thy ===== *)
theory Ring_Queue
  imports Udp_Types
begin

text \<open>
  The three packages outside the repository that the connection-oriented layer is built on, as
  parameters: the ring queue (\<open>go-ringqueue\<close>), the deadline (\<open>pion/transport/deadline\<close>) and the
  byte-buffer pool (\<open>bytebufferpool\<close>).  Their operations are the fields of the record \<open>lib\<close>,
  which every definition that calls them takes as an argument.  What the code relies on is stated
  by the locales \<open>ring_queue\<close>, \<open>deadline_timer\<close> and \<open>buffer_pool\<close>.  A bounded queue, a plain
  deadline and a first-fit pool satisfy them.
\<close>

section \<open>Packets in a receive queue (defs.go)\<close>

definition receiveMTU :: nat where "receiveMTU = 8192"
definition sendMTU :: nat where "sendMTU = 1500"
definition oobSize :: nat where "oobSize = 128"
definition defaultListenBacklog :: nat where "defaultListenBacklog = 128"
definition receiveBacklog :: nat where "receiveBacklog = 1024"

text \<open>
  A received packet points to two byte buffers; a buffer is known by its address and a nil pointer
  is \<open>None\<close>.
\<close>

record receivedPacket =
  pkt_data :: "nat option"
  pkt_oob :: "nat option"
  pkt_ecn :: ECN

section \<open>The packages as parameters\<close>

text \<open>
  A \<open>time.Time\<close> is \<open>None\<close> for the zero time (which clears a deadline) and otherwise an instant; the
  current instant is an argument of the operations that compare with it.
\<close>

type_synonym time = "int option"

datatype when_full = WhenFullError | WhenFullOverwrite | WhenFullBlock
datatype when_empty = WhenEmptyError | WhenEmptyBlock

text \<open>\<open>Pop\<close> blocks the caller, hands out an element, or returns an error.\<close>

datatype 'q pop_result = PopBlocks | PopItem receivedPacket 'q | PopErr err 'q

record 'q rq_api =
  rq_NewSafe :: "nat \<Rightarrow> when_full \<Rightarrow> when_empty \<Rightarrow> err + 'q"
  rq_Push :: "receivedPacket \<Rightarrow> 'q \<Rightarrow> err option \<times> 'q"
  rq_Pop :: "int \<Rightarrow> 'q \<Rightarrow> 'q pop_result"
  rq_Close :: "'q \<Rightarrow> err option \<times> receivedPacket list \<times> 'q"
  rq_SetPopDeadline :: "time \<Rightarrow> 'q \<Rightarrow> err option \<times> 'q"

text \<open>
  \<open>rq_Close\<close> also returns the elements on which the queue calls its close callback, in order.
\<close>

record 'd dl_api =
  dl_New :: 'd
  dl_Set :: "time \<Rightarrow> 'd \<Rightarrow> 'd"
  dl_Done :: "int \<Rightarrow> 'd \<Rightarrow> bool"

text \<open>
  A pool is known by the buffers that were put into it and not handed out again.  \<open>pool_pick\<close> is
  the pool's choice: the buffer \<open>Get\<close> reuses, or \<open>None\<close> when it allocates one.  \<open>pool_reset\<close> is
  what \<open>Put\<close> leaves in the buffer.
\<close>

record ('q, 'd) lib =
  lib_rq :: "'q rq_api"
  lib_dl :: "'d dl_api"
  pool_pick :: "nat list \<Rightarrow> nat option"
  pool_reset :: "byte list \<Rightarrow> byte list"

section \<open>What the code relies on\<close>

locale ring_queue =
  fixes Q :: "'q rq_api"
    and content :: "'q \<Rightarrow> receivedPacket list"
    and capacity :: "'q \<Rightarrow> nat"
    and closed :: "'q \<Rightarrow> bool"
    and in_time :: "int \<Rightarrow> 'q \<Rightarrow> bool"
  assumes NewSafe_ok: "0 < n \<Longrightarrow> \<exists>q. rq_NewSafe Q n WhenFullError WhenEmptyBlock = Inr q"
    and NewSafe_empty: "rq_NewSafe Q n WhenFullError WhenEmptyBlock = Inr q \<Longrightarrow>
      content q = [] \<and> capacity q = n \<and> \<not> closed q \<and> (\<forall>now. in_time now q)"
    and Push_room: "\<not> closed q \<Longrightarrow> length (content q) < capacity q \<Longrightarrow> rq_Push Q x q = (e, q') \<Longrightarrow>
      e = None \<and> content q' = content q @ [x]"
    and Push_full: "closed q \<or> capacity q \<le> length (content q) \<Longrightarrow> rq_Push Q x q = (e, q') \<Longrightarrow>
      e \<noteq> None \<and> content q' = content q"
    and Push_frame: "rq_Push Q x q = (e, q') \<Longrightarrow>
      capacity q' = capacity q \<and> closed q' = closed q \<and> in_time now q' = in_time now q"
    and Pop_item: "rq_Pop Q now q = PopItem x q' \<Longrightarrow>
      content q = x # content q' \<and> capacity q' = capacity q \<and> closed q' = closed q
      \<and> in_time later q' = in_time later q"
    and Pop_err: "rq_Pop Q now q = PopErr er q' \<Longrightarrow>
      content q' = content q \<and> capacity q' = capacity q \<and> closed q' = closed q
      \<and> in_time later q' = in_time later q"
    and Pop_ready: "\<not> closed q \<Longrightarrow> in_time now q \<Longrightarrow> content q \<noteq> [] \<Longrightarrow>
      \<exists>x q'. rq_Pop Q now q = PopItem x q'"
    and Pop_empty: "\<not> closed q \<Longrightarrow> in_time now q \<Longrightarrow> content q = [] \<Longrightarrow> rq_Pop Q now q = PopBlocks"
    and Pop_late: "\<not> closed q \<Longrightarrow> \<not> in_time now q \<Longrightarrow> content q = [] \<Longrightarrow>
      \<exists>q'. rq_Pop Q now q = PopErr DeadlineExceeded q'"
    and Pop_closed: "closed q \<Longrightarrow> content q = [] \<Longrightarrow> \<exists>er q'. rq_Pop Q now q = PopErr er q'"
    and Close_law: "rq_Close Q q = (e, xs, q') \<Longrightarrow>
      xs = content q \<and> content q' = [] \<and> capacity q' = capacity q \<and> closed q' \<and> (\<not> closed q \<longrightarrow> e = None)"
    and SetPopDeadline_law: "rq_SetPopDeadline Q t q = (e, q') \<Longrightarrow>
      content q' = content q \<and> capacity q' = capacity q \<and> closed q' = closed q
      \<and> (in_time now q' \<longleftrightarrow> t = None \<or> now < the t)"
begin

lemma Push_content:
  "rq_Push Q x q = (e, q') \<Longrightarrow>
   content q' = (if \<not> closed q \<and> length (content q) < capacity q then content q @ [x] else content q)"
  using Push_room [of q x e q'] Push_full [of q x e q'] by (cases "closed q") auto

lemma Push_bounded:
  "rq_Push Q x q = (e, q') \<Longrightarrow> length (content q) \<le> capacity q \<Longrightarrow> length (content q') \<le> capacity q'"
  using Push_content [of x q e q'] Push_frame [of x q e q'] by (auto split: if_splits)

text \<open>Pushing a list of packets and popping as often returns them in order.\<close>

lemma Pop_after:
  assumes "content q = x # xs" and "\<not> closed q" and "in_time now q"
  shows "\<exists>q'. rq_Pop Q now q = PopItem x q' \<and> content q' = xs \<and> \<not> closed q' \<and> in_time now q'
    \<and> capacity q' = capacity q"
proof -
  obtain y q' where pop: "rq_Pop Q now q = PopItem y q'"
    using Pop_ready [of q now] assms by auto
  with Pop_item [OF pop] assms show ?thesis by auto
qed

end

locale deadline_timer =
  fixes D :: "'d dl_api"
  assumes New_open: "\<not> dl_Done D now (dl_New D)"
    and Set_zero: "\<not> dl_Done D now (dl_Set D None d)"
    and Set_instant: "dl_Done D now (dl_Set D (Some t) d) \<longleftrightarrow> t \<le> now"

text \<open>A pool hands out only buffers that it holds.\<close>

locale buffer_pool =
  fixes pick :: "nat list \<Rightarrow> nat option"
  assumes pick_mem: "pick p = Some a \<Longrightarrow> a \<in> set p"

section \<open>A bounded queue, a plain deadline, a first-fit pool\<close>

text \<open>
  The reference queue: its elements, its capacity, whether it is closed, its pop deadline.
\<close>

record bq =
  bq_items :: "receivedPacket list"
  bq_cap :: nat
  bq_closed :: bool
  bq_deadline :: time

definition bq_in_time :: "int \<Rightarrow> bq \<Rightarrow> bool" where
  "bq_in_time now q \<longleftrightarrow> bq_deadline q = None \<or> now < the (bq_deadline q)"

definition bq_pop :: "int \<Rightarrow> bq \<Rightarrow> bq pop_result" where
  "bq_pop now q =
     (case bq_items q of
        x # xs \<Rightarrow> PopItem x (q\<lparr>bq_items := xs\<rparr>)
      | [] \<Rightarrow> if bq_closed q then PopErr (ErrMsg ''queue closed'') q
              else if bq_in_time now q then PopBlocks
              else PopErr DeadlineExceeded q)"

definition bq_api :: "bq rq_api" where
  "bq_api = \<lparr>
     rq_NewSafe = (\<lambda>n f e. if n = 0 then Inl (ErrMsg ''invalid size'')
       else Inr \<lparr>bq_items = [], bq_cap = n, bq_closed = False, bq_deadline = None\<rparr>),
     rq_Push = (\<lambda>x q. if bq_closed q then (Some (ErrMsg ''queue closed''), q)
       else if length (bq_items q) < bq_cap q then (None, q\<lparr>bq_items := bq_items q @ [x]\<rparr>)
       else (Some (ErrMsg ''queue full''), q)),
     rq_Pop = bq_pop,
     rq_Close = (\<lambda>q. (None, bq_items q, q\<lparr>bq_items := [], bq_closed := True\<rparr>)),
     rq_SetPopDeadline = (\<lambda>t q. (None, q\<lparr>bq_deadline := t\<rparr>))\<rparr>"

definition plain_dl_api :: "time dl_api" where
  "plain_dl_api = \<lparr>dl_New = None, dl_Set = (\<lambda>t d. t),
     dl_Done = (\<lambda>now d. case d of None \<Rightarrow> False | Some t \<Rightarrow> t \<le> now)\<rparr>"

definition first_fit :: "nat list \<Rightarrow> nat option" where
  "first_fit p = (case p of [] \<Rightarrow> None | a # _ \<Rightarrow> Some a)"

definition ref_lib :: "(bq, time) lib" where
  "ref_lib = \<lparr>lib_rq = bq_api, lib_dl = plain_dl_api, pool_pick = first_fit, pool_reset = (\<lambda>b. [])\<rparr>"

lemmas ref_lib_defs = ref_lib_def bq_api_def plain_dl_api_def bq_pop_def bq_in_time_def first_fit_def

interpretation bounded: ring_queue "bq_api" "bq_items" "bq_cap" "bq_closed" "bq_in_time"
  by unfold_locales
    (auto simp: bq_api_def bq_pop_def bq_in_time_def split: if_splits list.splits option.splits)

interpretation plain: deadline_timer "plain_dl_api"
  by unfold_locales (auto simp: plain_dl_api_def)

interpretation ffit: buffer_pool "first_fit"
  by unfold_locales (auto simp: first_fit_def split: list.splits)

end
