(* ===== verification/Sup_Conn.thy ===== *)
theory Sup_Conn
  imports Ring_Queue
begin

text \<open>
  The super connection of \<open>super.go\<close>: its state, the dispatch of received packets to sub
  connections, \<open>Accept\<close> and \<open>Close\<close>.  Each definition is one operation of the source or, where an
  operation releases the lock or waits between two effects, one of its atomic segments; the whole
  operation is then the composition of the segments in the source's order.

  The objects on the heap are two tables of the state: \<open>objs\<close> holds the \<open>Conn\<close> objects and \<open>bufs\<close>
  the contents of the byte buffers, both indexed by address.
\<close>

section \<open>State (super.go, conn.go)\<close>

record ('q, 'd) Conn =
  c_rAddr :: "net_addr option"
  c_queue :: 'q
  c_doneCh :: bool
  c_doneOnce :: bool
  c_writeDeadline :: 'd
  c_ecnDefault :: ECN

text \<open>
  The fields of \<open>supConn\<close>.  A channel used as a signal is the flag \<open>closed\<close>; \<open>acceptCh\<close> is the
  content of the channel, \<open>acceptCap\<close> its capacity and \<open>parked\<close> the number of goroutines blocked
  in \<open>Accept\<close>, each of which can take one element from a sender directly.  \<open>pLocalAddr\<close> and
  \<open>pRemoteAddr\<close> are the results of the raw connection's methods of these names.
\<close>

record ('q, 'd) supConn =
  pConnCaps :: ConnCapabilities
  pLocalAddr :: "net_addr option"
  pRemoteAddr :: "net_addr option"
  accepting :: bool
  acceptCh :: "nat list"
  acceptCap :: nat
  parked :: nat
  doneCh :: bool
  doneOnce :: bool
  acceptFilter :: "(byte list \<Rightarrow> bool) option"
  conns :: "(string, nat) go_map"
  connWG :: int
  readWG :: int
  errClose :: "err option"
  readDoneCh :: bool
  errRead :: "err option"
  deadline :: 'd
  bufPool :: "nat list"
  oobPool :: "nat list"
  isListener :: bool
  objs :: "('q, 'd) Conn list"
  bufs :: "byte list list"

text \<open>\<open>wrapConn\<close>: the state before its two goroutines take their first step.\<close>

definition wrapConn ::
    "('q, 'd) lib \<Rightarrow> ConnCapabilities \<Rightarrow> net_addr option \<Rightarrow> net_addr option \<Rightarrow> bool \<Rightarrow>
     (byte list \<Rightarrow> bool) option \<Rightarrow> nat \<Rightarrow> ('q, 'd) supConn" where
  "wrapConn L caps laddr raddr listener filt backlog =
     \<lparr>pConnCaps = caps, pLocalAddr = laddr, pRemoteAddr = raddr,
      accepting = True, acceptCh = [], acceptCap = backlog, parked = 0,
      doneCh = False, doneOnce = False, acceptFilter = filt,
      conns = [], connWG = 1, readWG = 2, errClose = None,
      readDoneCh = False, errRead = None, deadline = dl_New (lib_dl L),
      bufPool = [], oobPool = [], isListener = listener, objs = [], bufs = []\<rparr>"

section \<open>Buffers\<close>

text \<open>
  \<open>Get\<close> and \<open>Put\<close> of the two pools, on the pool's buffers and the table of contents.  A new buffer
  is empty.
\<close>

definition pool_get :: "('q, 'd) lib \<Rightarrow> nat list \<Rightarrow> byte list list \<Rightarrow> nat \<times> nat list \<times> byte list list" where
  "pool_get L p bs =
     (case pool_pick L p of
        Some a \<Rightarrow> (a, remove1 a p, bs)
      | None \<Rightarrow> (length bs, p, bs @ [[]]))"

definition putData :: "('q, 'd) lib \<Rightarrow> nat \<Rightarrow> ('q, 'd) supConn \<Rightarrow> ('q, 'd) supConn" where
  "putData L a l = l\<lparr>bufPool := a # bufPool l, bufs := (bufs l)[a := pool_reset L (bufs l ! a)]\<rparr>"

definition putOob :: "('q, 'd) lib \<Rightarrow> nat \<Rightarrow> ('q, 'd) supConn \<Rightarrow> ('q, 'd) supConn" where
  "putOob L a l = l\<lparr>oobPool := a # oobPool l, bufs := (bufs l)[a := pool_reset L (bufs l ! a)]\<rparr>"

definition putBuffers ::
    "('q, 'd) lib \<Rightarrow> nat option \<Rightarrow> nat option \<Rightarrow> ('q, 'd) supConn \<Rightarrow> ('q, 'd) supConn" where
  "putBuffers L data oob l =
     (let l = (case data of None \<Rightarrow> l | Some a \<Rightarrow> putData L a l)
      in (case oob of None \<Rightarrow> l | Some a \<Rightarrow> putOob L a l))"

definition onQueueClose ::
    "('q, 'd) lib \<Rightarrow> receivedPacket \<Rightarrow> ('q, 'd) supConn \<Rightarrow> ('q, 'd) supConn" where
  "onQueueClose L pkt l = putBuffers L (pkt_data pkt) (pkt_oob pkt) l"

text \<open>The slice a buffer is given when it is shorter than required (\<open>make([]byte, n)\<close>).\<close>

definition grow :: "nat \<Rightarrow> byte list \<Rightarrow> byte list" where
  "grow n b = (if length b < n then replicate n 0 else b)"

lemma length_grow: "n \<le> length (grow n b)"
  by (simp add: grow_def)

section \<open>Sub connections\<close>

definition rAddrString :: "('q, 'd) supConn \<Rightarrow> net_addr option \<Rightarrow> string" where
  "rAddrString l addr =
     (case addr of
        Some a \<Rightarrow> addr_String a
      | None \<Rightarrow> (case pRemoteAddr l of Some a \<Rightarrow> addr_String a | None \<Rightarrow> ''<nil>''))"

definition newSubConn ::
    "('q, 'd) lib \<Rightarrow> ('q, 'd) supConn \<Rightarrow> net_addr option \<Rightarrow> ('q, 'd) Conn go" where
  "newSubConn L l rAddr =
     (case rq_NewSafe (lib_rq L) receiveBacklog WhenFullError WhenEmptyBlock of
        Inl e \<Rightarrow> Panic (PanicMsg ''queue is not working'')
      | Inr queue \<Rightarrow>
          Ret \<lparr>c_rAddr = rAddr, c_queue = queue, c_doneCh = False, c_doneOnce = False,
               c_writeDeadline = dl_New (lib_dl L),
               c_ecnDefault = (if cap_ECN (pConnCaps l) then ECNNon else ECNUnsupported)\<rparr>)"

text \<open>
  \<open>getSubConn\<close> holds the lock for its whole body.  It returns the connection (its address in
  \<open>objs\<close>), whether it is new, and an error.  The non-blocking send on \<open>acceptCh\<close> succeeds when the
  channel has room or a goroutine is blocked in \<open>Accept\<close>.
\<close>

definition getSubConn ::
    "('q, 'd) lib \<Rightarrow> net_addr option \<Rightarrow> byte list \<Rightarrow> bool \<Rightarrow> ('q, 'd) supConn \<Rightarrow>
     ((nat option \<times> bool \<times> err option) \<times> ('q, 'd) supConn) go" where
  "getSubConn L rAddr buf filt l =
     (case map_of (conns l) (rAddrString l rAddr) of
        Some c \<Rightarrow> Ret ((Some c, False, None), l)
      | None \<Rightarrow>
          if \<not> accepting l then Ret ((None, False, Some ErrClosedSuperConn), l)
          else if filt \<and> (case acceptFilter l of None \<Rightarrow> False | Some f \<Rightarrow> \<not> f buf)
          then Ret ((None, False, None), l)
          else go_bind (newSubConn L l rAddr) (\<lambda>conn.
            let c = length (objs l); l = l\<lparr>objs := objs l @ [conn]\<rparr>
            in if isListener l then
                 (if length (acceptCh l) < acceptCap l + parked l
                  then Ret ((Some c, True, None),
                     l\<lparr>acceptCh := acceptCh l @ [c],
                       conns := AList.update (rAddrString l rAddr) c (conns l)\<rparr>)
                  else Ret ((None, False, Some ErrListenQueueExceeded), l))
               else Ret ((Some c, True, None), l)))"

text \<open>\<open>conn.queue.Push\<close>, whose error the caller ignores.\<close>

definition pushPacket ::
    "('q, 'd) lib \<Rightarrow> nat \<Rightarrow> receivedPacket \<Rightarrow> ('q, 'd) supConn \<Rightarrow> ('q, 'd) supConn" where
  "pushPacket L c pkt l =
     (let conn = objs l ! c
      in l\<lparr>objs := (objs l)[c := conn\<lparr>c_queue := snd (rq_Push (lib_rq L) pkt (c_queue conn))\<rparr>]\<rparr>)"

lemma pushPacket_frame [simp]:
  "accepting (pushPacket L c pkt l) = accepting l" "acceptCh (pushPacket L c pkt l) = acceptCh l"
  "acceptCap (pushPacket L c pkt l) = acceptCap l" "parked (pushPacket L c pkt l) = parked l"
  "conns (pushPacket L c pkt l) = conns l" "connWG (pushPacket L c pkt l) = connWG l"
  "readWG (pushPacket L c pkt l) = readWG l" "bufPool (pushPacket L c pkt l) = bufPool l"
  "oobPool (pushPacket L c pkt l) = oobPool l" "bufs (pushPacket L c pkt l) = bufs l"
  "isListener (pushPacket L c pkt l) = isListener l" "doneCh (pushPacket L c pkt l) = doneCh l"
  "acceptFilter (pushPacket L c pkt l) = acceptFilter l" "doneOnce (pushPacket L c pkt l) = doneOnce l"
  "pRemoteAddr (pushPacket L c pkt l) = pRemoteAddr l" "readDoneCh (pushPacket L c pkt l) = readDoneCh l"
  "length (objs (pushPacket L c pkt l)) = length (objs l)"
  by (simp_all add: pushPacket_def Let_def)

definition dispatchMsg ::
    "('q, 'd) lib \<Rightarrow> net_addr option \<Rightarrow> nat \<Rightarrow> nat \<Rightarrow> ECN \<Rightarrow> ('q, 'd) supConn \<Rightarrow> ('q, 'd) supConn go" where
  "dispatchMsg L addr buf oobBuf ecn l =
     go_bind (getSubConn L addr (bufs l ! buf) True l) (\<lambda>((conn, _, _), l).
       case conn of
         None \<Rightarrow> Ret l
       | Some c \<Rightarrow>
           Ret (pushPacket L c \<lparr>pkt_data = Some buf, pkt_oob = Some oobBuf, pkt_ecn = ecn\<rparr> l))"

section \<open>The read loop\<close>

text \<open>
  What \<open>pConn.ReadPacket(b, oob)\<close> does: its five results, and the contents it leaves in the two
  slices it was given.
\<close>

record raw_read =
  rr_n :: int
  rr_oobN :: int
  rr_ecn :: ECN
  rr_addr :: "net_addr option"
  rr_err :: "err option"
  rr_b :: "byte list"
  rr_oob :: "byte list"

text \<open>The head of the loop body: two buffers, large enough for a packet.\<close>

definition readLoop_buffers ::
    "('q, 'd) lib \<Rightarrow> ('q, 'd) supConn \<Rightarrow> nat \<times> nat \<times> ('q, 'd) supConn" where
  "readLoop_buffers L l =
     (case pool_get L (bufPool l) (bufs l) of (buf, bp, bs) \<Rightarrow>
        let bs = bs[buf := grow receiveMTU (bs ! buf)] in
        (case pool_get L (oobPool l) bs of (oobBuf, op, bs) \<Rightarrow>
          let bs = bs[oobBuf := grow oobSize (bs ! oobBuf)] in
          (buf, oobBuf, l\<lparr>bufPool := bp, oobPool := op, bufs := bs\<rparr>)))"

text \<open>
  The rest of the loop body.  On an error the loop stops and its two deferred calls run in reverse
  order: the read-done channel is closed, then the read wait group is decremented.  The flag of
  the result says whether the loop goes on.
\<close>

definition readLoop_deliver ::
    "('q, 'd) lib \<Rightarrow> raw_read \<Rightarrow> nat \<Rightarrow> nat \<Rightarrow> ('q, 'd) supConn \<Rightarrow> (bool \<times> ('q, 'd) supConn) go" where
  "readLoop_deliver L r buf oobBuf l =
     (let l = l\<lparr>bufs := (bufs l)[buf := rr_b r, oobBuf := rr_oob r]\<rparr> in
      case rr_err r of
        Some e \<Rightarrow>
          (let l = l\<lparr>errRead := Some e\<rparr> in
           go_bind (chan_close (readDoneCh l)) (\<lambda>ch.
           go_bind (wg_done (readWG l)) (\<lambda>wg.
             Ret (False, l\<lparr>readDoneCh := ch, readWG := wg\<rparr>))))
      | None \<Rightarrow>
          go_bind (slice_to (bufs l ! buf) (rr_n r)) (\<lambda>b.
          go_bind (slice_to (bufs l ! oobBuf) (rr_oobN r)) (\<lambda>oob.
          go_bind (dispatchMsg L (rr_addr r) buf oobBuf (rr_ecn r)
                     (l\<lparr>bufs := (bufs l)[buf := b, oobBuf := oob]\<rparr>)) (\<lambda>l.
            Ret (True, l)))))"

text \<open>
  One iteration, given the raw connection's \<open>ReadPacket\<close> as a function of the two slices; and the
  loop, over the sequence of answers of the raw connection.
\<close>

definition readLoop_iter ::
    "('q, 'd) lib \<Rightarrow> (byte list \<Rightarrow> byte list \<Rightarrow> raw_read) \<Rightarrow> ('q, 'd) supConn \<Rightarrow>
     (bool \<times> ('q, 'd) supConn) go" where
  "readLoop_iter L readPacket l =
     (case readLoop_buffers L l of (buf, oobBuf, l) \<Rightarrow>
        readLoop_deliver L (readPacket (bufs l ! buf) (bufs l ! oobBuf)) buf oobBuf l)"

fun readLoop ::
    "('q, 'd) lib \<Rightarrow> (byte list \<Rightarrow> byte list \<Rightarrow> raw_read) list \<Rightarrow> ('q, 'd) supConn \<Rightarrow>
     (bool \<times> ('q, 'd) supConn) go" where
  "readLoop L [] l = Ret (True, l)"
| "readLoop L (rd # rds) l =
     go_bind (readLoop_iter L rd l) (\<lambda>(go_on, l).
       if go_on then readLoop L rds l else Ret (False, l))"

section \<open>Accept\<close>

text \<open>
  \<open>Accept\<close> selects among four channel operations.  \<open>accept_ready\<close> says which of them can proceed;
  \<open>select\<close> picks any of those, so the choice is an argument.  \<open>Accept\<close> returns \<open>None\<close> for a choice
  that cannot proceed, and blocks when no choice can.
\<close>

datatype accept_case = CaseConn | CaseReadDone | CaseDeadline | CaseDone

datatype accept_result = AcceptConn nat | AcceptErr "err option"

definition accept_ready :: "('q, 'd) lib \<Rightarrow> int \<Rightarrow> ('q, 'd) supConn \<Rightarrow> accept_case \<Rightarrow> bool" where
  "accept_ready L now l k =
     (case k of
        CaseConn \<Rightarrow> acceptCh l \<noteq> []
      | CaseReadDone \<Rightarrow> readDoneCh l
      | CaseDeadline \<Rightarrow> dl_Done (lib_dl L) now (deadline l)
      | CaseDone \<Rightarrow> doneCh l)"

text \<open>Receiving from \<open>acceptCh\<close> and counting the connection are two steps.\<close>

definition accept_recv :: "('q, 'd) supConn \<Rightarrow> (nat \<times> ('q, 'd) supConn) option" where
  "accept_recv l = (case acceptCh l of [] \<Rightarrow> None | c # cs \<Rightarrow> Some (c, l\<lparr>acceptCh := cs\<rparr>))"

definition accept_add :: "('q, 'd) supConn \<Rightarrow> ('q, 'd) supConn go" where
  "accept_add l = go_bind (wg_add (connWG l) 1) (\<lambda>wg. Ret (l\<lparr>connWG := wg\<rparr>))"

definition Accept ::
    "('q, 'd) lib \<Rightarrow> int \<Rightarrow> accept_case \<Rightarrow> ('q, 'd) supConn \<Rightarrow>
     (accept_result \<times> ('q, 'd) supConn) option go" where
  "Accept L now k l =
     (if \<not> isListener l then Ret (Some (AcceptErr (Some ErrUnsupported), l))
      else if \<not> accept_ready L now l k then Ret None
      else case k of
        CaseConn \<Rightarrow>
          (case accept_recv l of
             None \<Rightarrow> Ret None
           | Some (c, l) \<Rightarrow> go_bind (accept_add l) (\<lambda>l. Ret (Some (AcceptConn c, l))))
      | CaseReadDone \<Rightarrow> Ret (Some (AcceptErr (errRead l), l))
      | CaseDeadline \<Rightarrow> Ret (Some (AcceptErr (Some DeadlineExceeded), l))
      | CaseDone \<Rightarrow> Ret (Some (AcceptErr (Some ErrClosedSuperConn), l)))"

section \<open>Close\<close>

text \<open>
  \<open>Close\<close> runs once.  Its segments: stop accepting; signal; under the lock, close the
  connections nobody accepted and count the others; decrement the connection wait group; wait for
  the read loop if no connection is left.  Calling \<open>String()\<close> on a nil address panics.
\<close>

definition close_stop :: "('q, 'd) supConn \<Rightarrow> ('q, 'd) supConn" where
  "close_stop l = l\<lparr>doneOnce := True, accepting := False\<rparr>"

definition close_signal :: "('q, 'd) supConn \<Rightarrow> ('q, 'd) supConn go" where
  "close_signal l = go_bind (chan_close (doneCh l)) (\<lambda>ch. Ret (l\<lparr>doneCh := ch\<rparr>))"

definition lclose_one :: "nat \<Rightarrow> ('q, 'd) supConn \<Rightarrow> ('q, 'd) supConn go" where
  "lclose_one c l =
     (let conn = objs l ! c in
      go_bind (chan_close (c_doneCh conn)) (\<lambda>ch.
        let l = l\<lparr>objs := (objs l)[c := conn\<lparr>c_doneCh := ch\<rparr>]\<rparr> in
        case c_rAddr conn of
          None \<Rightarrow> Panic NilDereference
        | Some a \<Rightarrow> Ret (l\<lparr>conns := AList.delete (addr_String a) (conns l)\<rparr>)))"

fun lclose :: "nat list \<Rightarrow> ('q, 'd) supConn \<Rightarrow> ('q, 'd) supConn go" where
  "lclose [] l = Ret l"
| "lclose (c # cs) l = go_bind (lclose_one c (l\<lparr>acceptCh := cs\<rparr>)) (lclose cs)"

definition close_drain :: "('q, 'd) supConn \<Rightarrow> (nat \<times> ('q, 'd) supConn) go" where
  "close_drain l = go_bind (lclose (acceptCh l) l) (\<lambda>l. Ret (length (conns l), l))"

definition close_done :: "('q, 'd) supConn \<Rightarrow> ('q, 'd) supConn go" where
  "close_done l = go_bind (wg_done (connWG l)) (\<lambda>wg. Ret (l\<lparr>connWG := wg\<rparr>))"

datatype close_result = CloseWaits | CloseRet "err option"

definition close_finish :: "nat \<Rightarrow> ('q, 'd) supConn \<Rightarrow> close_result" where
  "close_finish nConns l =
     (if nConns = 0 then (if readWG l = 0 then CloseRet (errClose l) else CloseWaits)
      else CloseRet None)"

definition supConn_Close :: "('q, 'd) supConn \<Rightarrow> (close_result \<times> ('q, 'd) supConn) go" where
  "supConn_Close l =
     (if doneOnce l then Ret (CloseRet None, l)
      else go_bind (close_signal (close_stop l)) (\<lambda>l.
           go_bind (close_drain l) (\<lambda>(nConns, l).
           go_bind (close_done l) (\<lambda>l.
             Ret (close_finish nConns l, l)))))"

text \<open>
  The goroutine that \<open>wrapConn\<close> starts: when the connection wait group is zero it closes the raw
  connection, whose error (if any) it keeps, and decrements the read wait group.
\<close>

definition closer_goroutine :: "err option \<Rightarrow> ('q, 'd) supConn \<Rightarrow> ('q, 'd) supConn option go" where
  "closer_goroutine pConnCloseErr l =
     (if connWG l \<noteq> 0 then Ret None
      else go_bind (wg_done (readWG l)) (\<lambda>wg.
        Ret (Some (l\<lparr>errClose := (case pConnCloseErr of None \<Rightarrow> errClose l | Some e \<Rightarrow> Some e),
                     readWG := wg\<rparr>))))"

section \<open>The other methods\<close>

definition supConn_Capabilities :: "('q, 'd) supConn \<Rightarrow> ConnCapabilities" where
  "supConn_Capabilities l = pConnCaps l"

definition supConn_Addr :: "('q, 'd) supConn \<Rightarrow> net_addr option" where
  "supConn_Addr l = pLocalAddr l"

definition supConn_SetDeadline ::
    "('q, 'd) lib \<Rightarrow> time \<Rightarrow> ('q, 'd) supConn \<Rightarrow> err option \<times> ('q, 'd) supConn" where
  "supConn_SetDeadline L t l = (None, l\<lparr>deadline := dl_Set (lib_dl L) t (deadline l)\<rparr>)"

end
