(* ===== verification/Sub_Conn.thy ===== *)
theory Sub_Conn
  imports Sup_Conn
begin

text \<open>
  The sub connection of \<open>conn.go\<close>.  A method runs on the address \<open>i\<close> of its \<open>Conn\<close> object and on the
  state of the super connection the object belongs to.
\<close>

section \<open>Read and Write\<close>

text \<open>
  \<open>Read\<close> blocks while the queue is empty.  Otherwise it returns the two counts, the ECN codepoint
  and an error, and the new contents of the caller's two slices.
\<close>

datatype read_result = ReadBlocks | ReadRet nat nat ECN "err option" "byte list" "byte list"

definition set_queue :: "nat \<Rightarrow> 'q \<Rightarrow> ('q, 'd) supConn \<Rightarrow> ('q, 'd) supConn" where
  "set_queue i q l = l\<lparr>objs := (objs l)[i := (objs l ! i)\<lparr>c_queue := q\<rparr>]\<rparr>"

text \<open>
  \<open>Read\<close> after a successful \<open>Pop\<close>: copy out, then give the two buffers back.
\<close>

definition read_copy ::
    "('q, 'd) lib \<Rightarrow> receivedPacket \<Rightarrow> byte list \<Rightarrow> byte list \<Rightarrow> ('q, 'd) supConn \<Rightarrow>
     (read_result \<times> ('q, 'd) supConn) go" where
  "read_copy L pkt p oob l =
     (case (pkt_data pkt, pkt_oob pkt) of
        (Some a, Some b) \<Rightarrow>
          (case go_copy p (bufs l ! a) of (n, p') \<Rightarrow>
           case go_copy oob (bufs l ! b) of (oobN, oob') \<Rightarrow>
             Ret (ReadRet n oobN (pkt_ecn pkt) None p' oob', putOob L b (putData L a l)))
      | _ \<Rightarrow> Panic NilDereference)"

definition Conn_Read ::
    "('q, 'd) lib \<Rightarrow> int \<Rightarrow> nat \<Rightarrow> byte list \<Rightarrow> byte list \<Rightarrow> ('q, 'd) supConn \<Rightarrow>
     (read_result \<times> ('q, 'd) supConn) go" where
  "Conn_Read L now i p oob l =
     (let c = objs l ! i in
      case rq_Pop (lib_rq L) now (c_queue c) of
        PopBlocks \<Rightarrow> Ret (ReadBlocks, l)
      | PopErr e q \<Rightarrow>
          Ret (ReadRet 0 0 (c_ecnDefault c) (Some (if c_doneCh c then EOF else e)) p oob,
               set_queue i q l)
      | PopItem pkt q \<Rightarrow> read_copy L pkt p oob (set_queue i q l))"

text \<open>
  \<open>checkWriteDeadline\<close> selects between two signals; when both are set, either may be taken, so the
  choice is an argument.
\<close>

definition checkWriteDeadline ::
    "('q, 'd) lib \<Rightarrow> int \<Rightarrow> bool \<Rightarrow> nat \<Rightarrow> ('q, 'd) supConn \<Rightarrow> err option" where
  "checkWriteDeadline L now pick_done i l =
     (let c = objs l ! i; late = dl_Done (lib_dl L) now (c_writeDeadline c) in
      if c_doneCh c \<and> (pick_done \<or> \<not> late) then Some ErrClosedSuperConn
      else if late then Some DeadlineExceeded
      else None)"

text \<open>
  \<open>Write\<close> hands the packet to the raw connection's \<open>WritePacket\<close>, with the segment size cut to
  sixteen bits.
\<close>

type_synonym write_packet =
  "byte list \<Rightarrow> byte list \<Rightarrow> 16 word \<Rightarrow> ECN \<Rightarrow> net_addr option \<Rightarrow> (int \<times> int \<times> err option) go"

definition Conn_Write ::
    "('q, 'd) lib \<Rightarrow> write_packet \<Rightarrow> int \<Rightarrow> bool \<Rightarrow> nat \<Rightarrow> byte list \<Rightarrow> byte list \<Rightarrow> int \<Rightarrow> ECN \<Rightarrow>
     ('q, 'd) supConn \<Rightarrow> (int \<times> int \<times> err option) go" where
  "Conn_Write L wp now pick_done i p oob gsoSize ecn l =
     (case checkWriteDeadline L now pick_done i l of
        Some e \<Rightarrow> Ret (0, 0, Some e)
      | None \<Rightarrow> wp p oob (word_of_int gsoSize) ecn (c_rAddr (objs l ! i)))"

section \<open>Close\<close>

text \<open>
  The segments of \<open>Close\<close>, in order: decrement the wait group; close the signal channel; under
  the lock, remove the connection from the table and count the others; wait for the read loop if
  this was the last connection of a super connection that no longer accepts; close the queue,
  which gives every undelivered packet to \<open>onQueueClose\<close>.
\<close>

definition conn_decr :: "nat \<Rightarrow> ('q, 'd) supConn \<Rightarrow> ('q, 'd) supConn go" where
  "conn_decr i l =
     go_bind (wg_done (connWG l)) (\<lambda>wg.
       Ret (l\<lparr>connWG := wg, objs := (objs l)[i := (objs l ! i)\<lparr>c_doneOnce := True\<rparr>]\<rparr>))"

definition conn_signal :: "nat \<Rightarrow> ('q, 'd) supConn \<Rightarrow> ('q, 'd) supConn go" where
  "conn_signal i l =
     go_bind (chan_close (c_doneCh (objs l ! i))) (\<lambda>ch.
       Ret (l\<lparr>objs := (objs l)[i := (objs l ! i)\<lparr>c_doneCh := ch\<rparr>]\<rparr>))"

definition conn_delete :: "nat \<Rightarrow> ('q, 'd) supConn \<Rightarrow> (nat \<times> ('q, 'd) supConn) go" where
  "conn_delete i l =
     (case c_rAddr (objs l ! i) of
        None \<Rightarrow> Panic NilDereference
      | Some a \<Rightarrow>
          (let l = l\<lparr>conns := AList.delete (addr_String a) (conns l)\<rparr>
           in Ret (length (conns l), l)))"

definition conn_wait :: "nat \<Rightarrow> ('q, 'd) supConn \<Rightarrow> close_result" where
  "conn_wait nConns l =
     (if nConns = 0 \<and> \<not> accepting l
      then (if readWG l = 0 then CloseRet (errClose l) else CloseWaits)
      else CloseRet None)"

definition conn_queue_close ::
    "('q, 'd) lib \<Rightarrow> nat \<Rightarrow> err option \<Rightarrow> ('q, 'd) supConn \<Rightarrow> err option \<times> ('q, 'd) supConn" where
  "conn_queue_close L i e l =
     (case rq_Close (lib_rq L) (c_queue (objs l ! i)) of (errBuf, dropped, q) \<Rightarrow>
        (if errBuf \<noteq> None \<and> e = None then errBuf else e,
         fold (onQueueClose L) dropped (set_queue i q l)))"

definition Conn_Close ::
    "('q, 'd) lib \<Rightarrow> nat \<Rightarrow> ('q, 'd) supConn \<Rightarrow> (close_result \<times> ('q, 'd) supConn) go" where
  "Conn_Close L i l =
     (if c_doneOnce (objs l ! i) then Ret (CloseRet None, l)
      else go_bind (conn_decr i l) (\<lambda>l.
           go_bind (conn_signal i l) (\<lambda>l.
           go_bind (conn_delete i l) (\<lambda>(nConns, l).
             case conn_wait nConns l of
               CloseWaits \<Rightarrow> Ret (CloseWaits, l)
             | CloseRet e \<Rightarrow>
                 (case conn_queue_close L i e l of (e, l) \<Rightarrow> Ret (CloseRet e, l))))))"

section \<open>The other methods\<close>

definition Conn_LocalAddr :: "('q, 'd) supConn \<Rightarrow> net_addr option" where
  "Conn_LocalAddr l = pLocalAddr l"

definition Conn_RemoteAddr :: "nat \<Rightarrow> ('q, 'd) supConn \<Rightarrow> net_addr option" where
  "Conn_RemoteAddr i l = c_rAddr (objs l ! i)"

definition SetReadDeadline ::
    "('q, 'd) lib \<Rightarrow> nat \<Rightarrow> time \<Rightarrow> ('q, 'd) supConn \<Rightarrow> err option \<times> ('q, 'd) supConn" where
  "SetReadDeadline L i t l =
     (case rq_SetPopDeadline (lib_rq L) t (c_queue (objs l ! i)) of (e, q) \<Rightarrow> (e, set_queue i q l))"

definition SetWriteDeadline ::
    "('q, 'd) lib \<Rightarrow> nat \<Rightarrow> time \<Rightarrow> ('q, 'd) supConn \<Rightarrow> err option \<times> ('q, 'd) supConn" where
  "SetWriteDeadline L i t l =
     (let c = objs l ! i
      in (None, l\<lparr>objs := (objs l)[i := c\<lparr>c_writeDeadline := dl_Set (lib_dl L) t (c_writeDeadline c)\<rparr>]\<rparr>))"

definition SetDeadline ::
    "('q, 'd) lib \<Rightarrow> nat \<Rightarrow> time \<Rightarrow> ('q, 'd) supConn \<Rightarrow> err option \<times> ('q, 'd) supConn" where
  "SetDeadline L i t l = SetReadDeadline L i t (snd (SetWriteDeadline L i t l))"

definition Conn_Capabilities :: "('q, 'd) supConn \<Rightarrow> ConnCapabilities" where
  "Conn_Capabilities l = pConnCaps l"

end
