(* ===== verification/Dispatch.thy ===== *)
theory Dispatch
  imports Sub_Conn
begin

text \<open>
  What the super connection promises: it splits the datagrams of one socket into one ordered,
  bounded stream per remote address.  The abstract specification is the record \<open>mux\<close> with its
  operations; the invariants \<open>buf_inv\<close> (every byte buffer has one owner) and \<open>conn_inv\<close> (the table
  of connections) make the operations of \<open>Sup_Conn\<close> and \<open>Sub_Conn\<close> implement it.
\<close>

section \<open>The libraries together\<close>

locale udp_lib =
  rq: ring_queue "lib_rq L" ct cp cl it + pool: buffer_pool "pool_pick L" + timer: deadline_timer "lib_dl L"
  for L :: "('q, 'd) lib" and ct :: "'q \<Rightarrow> receivedPacket list" and cp :: "'q \<Rightarrow> nat"
    and cl :: "'q \<Rightarrow> bool" and it :: "int \<Rightarrow> 'q \<Rightarrow> bool"

section \<open>Ownership of buffers\<close>

text \<open>
  The number of references to a buffer: from the pools, from the packets queued at any connection,
  and from the buffers in \<open>hand\<close>, which a goroutine holds between two of its steps.
\<close>

definition pkt_refs :: "receivedPacket \<Rightarrow> nat \<Rightarrow> nat" where
  "pkt_refs p a = (if pkt_data p = Some a then 1 else 0) + (if pkt_oob p = Some a then 1 else 0)"

definition conn_refs :: "('q \<Rightarrow> receivedPacket list) \<Rightarrow> nat \<Rightarrow> ('q, 'd) Conn \<Rightarrow> nat" where
  "conn_refs ct a c = (\<Sum>p\<leftarrow>ct (c_queue c). pkt_refs p a)"

definition refs :: "('q \<Rightarrow> receivedPacket list) \<Rightarrow> ('q, 'd) supConn \<Rightarrow> nat list \<Rightarrow> nat \<Rightarrow> nat" where
  "refs ct l hand a =
     count_list (bufPool l) a + count_list (oobPool l) a + count_list hand a
     + (\<Sum>c\<leftarrow>objs l. conn_refs ct a c)"

definition full_pkt :: "receivedPacket \<Rightarrow> bool" where
  "full_pkt p \<longleftrightarrow> pkt_data p \<noteq> None \<and> pkt_oob p \<noteq> None"

definition buf_inv :: "('q \<Rightarrow> receivedPacket list) \<Rightarrow> ('q, 'd) supConn \<Rightarrow> nat list \<Rightarrow> bool" where
  "buf_inv ct l hand \<longleftrightarrow>
     (\<forall>a. refs ct l hand a \<le> 1 \<and> (0 < refs ct l hand a \<longrightarrow> a < length (bufs l)))
     \<and> (\<forall>c \<in> set (objs l). \<forall>p \<in> set (ct (c_queue c)). full_pkt p)"

lemma buf_invI:
  assumes "\<And>a. refs ct l hand a \<le> 1"
    and "\<And>a. 0 < refs ct l hand a \<Longrightarrow> a < length (bufs l)"
    and "\<And>c p. c \<in> set (objs l) \<Longrightarrow> p \<in> set (ct (c_queue c)) \<Longrightarrow> full_pkt p"
  shows "buf_inv ct l hand"
  using assms by (auto simp: buf_inv_def)

lemma buf_invD:
  assumes "buf_inv ct l hand"
  shows "refs ct l hand a \<le> 1"
    and "0 < refs ct l hand a \<Longrightarrow> a < length (bufs l)"
    and "c \<in> set (objs l) \<Longrightarrow> p \<in> set (ct (c_queue c)) \<Longrightarrow> full_pkt p"
  using assms by (auto simp: buf_inv_def)

text \<open>
  Weakening: a state with fewer references, no fewer buffers and the same kind of packets.
\<close>

lemma buf_inv_mono:
  assumes "buf_inv ct l hand"
    and "\<And>a. refs ct l' hand' a \<le> refs ct l hand a"
    and "length (bufs l) \<le> length (bufs l')"
    and "\<And>c p. c \<in> set (objs l') \<Longrightarrow> p \<in> set (ct (c_queue c)) \<Longrightarrow> full_pkt p"
  shows "buf_inv ct l' hand'"
proof (rule buf_invI)
  fix a
  show "refs ct l' hand' a \<le> 1"
    using assms(2) [of a] buf_invD(1) [OF assms(1), of a] by simp
  show "a < length (bufs l')" if "0 < refs ct l' hand' a"
    using that assms(2) [of a] assms(3) buf_invD(2) [OF assms(1), of a] by simp
qed (use assms(4) in blast)

text \<open>Replacing the queue of one connection changes the references by the difference.\<close>

lemma refs_update_conn:
  assumes "i < length (objs l)" and "objs l' = (objs l)[i := c]"
    and "bufPool l' = bufPool l" and "oobPool l' = oobPool l"
  shows "refs ct l' hand a + conn_refs ct a (objs l ! i) = refs ct l hand a + conn_refs ct a c"
  using sum_list_update_nat [OF assms(1), of "conn_refs ct a" c] assms(2-4) by (simp add: refs_def)

lemma conn_refs_le:
  "i < length (objs l) \<Longrightarrow> conn_refs ct a (objs l ! i) \<le> refs ct l hand a"
  using sum_list_nth_le_nat [of i "objs l" "conn_refs ct a"] by (simp add: refs_def)

lemma pkt_refs_le:
  "p \<in> set (ct (c_queue c)) \<Longrightarrow> pkt_refs p a \<le> conn_refs ct a c"
  using member_le_sum_list [of "pkt_refs p a" "map (\<lambda>p. pkt_refs p a) (ct (c_queue c))"]
  by (auto simp: conn_refs_def)

text \<open>Buffers in hand are not referenced by a queued packet.\<close>

lemma hand_not_queued:
  assumes "buf_inv ct l hand" and "a \<in> set hand" and "i < length (objs l)"
    and "p \<in> set (ct (c_queue (objs l ! i)))"
  shows "pkt_data p \<noteq> Some a \<and> pkt_oob p \<noteq> Some a"
proof -
  have "conn_refs ct a (objs l ! i) \<le> (\<Sum>c\<leftarrow>objs l. conn_refs ct a c)"
    using sum_list_nth_le_nat [OF assms(3)] .
  moreover have "0 < count_list hand a"
    using assms(2) by (simp add: count_list_pos)
  ultimately have "conn_refs ct a (objs l ! i) = 0"
    using buf_invD(1) [OF assms(1), of a] by (simp add: refs_def)
  then have "pkt_refs p a = 0"
    using pkt_refs_le [of p ct "objs l ! i" a] assms(4) by simp
  then show ?thesis
    by (auto simp: pkt_refs_def split: if_splits)
qed

section \<open>The table of connections\<close>

definition conn_key :: "('q, 'd) supConn \<Rightarrow> nat \<Rightarrow> string" where
  "conn_key l c = (case c_rAddr (objs l ! c) of None \<Rightarrow> '''' | Some a \<Rightarrow> addr_String a)"

definition conn_inv ::
    "('q \<Rightarrow> nat) \<Rightarrow> ('q \<Rightarrow> bool) \<Rightarrow> ('q, 'd) supConn \<Rightarrow> bool" where
  "conn_inv cp cl l \<longleftrightarrow>
     map_wf (conns l) \<and> distinct (map snd (conns l))
     \<and> (\<forall>k c. map_of (conns l) k = Some c \<longrightarrow>
          c < length (objs l) \<and> c_rAddr (objs l ! c) \<noteq> None \<and> conn_key l c = k
          \<and> \<not> cl (c_queue (objs l ! c)) \<and> cp (c_queue (objs l ! c)) = receiveBacklog)
     \<and> distinct (acceptCh l) \<and> set (acceptCh l) \<subseteq> snd ` set (conns l)
     \<and> length (acceptCh l) \<le> acceptCap l + parked l"

lemma conn_invD:
  assumes "conn_inv cp cl l"
  shows "map_wf (conns l)" "distinct (map snd (conns l))" "distinct (acceptCh l)"
    "set (acceptCh l) \<subseteq> snd ` set (conns l)" "length (acceptCh l) \<le> acceptCap l + parked l"
  using assms by (auto simp: conn_inv_def)

lemma conn_inv_lookup:
  assumes "conn_inv cp cl l" and "map_of (conns l) k = Some c"
  shows "c < length (objs l)" "\<exists>a. c_rAddr (objs l ! c) = Some a \<and> addr_String a = k" "conn_key l c = k"
    "\<not> cl (c_queue (objs l ! c))" "cp (c_queue (objs l ! c)) = receiveBacklog"
proof -
  have "c < length (objs l) \<and> c_rAddr (objs l ! c) \<noteq> None \<and> conn_key l c = k
      \<and> \<not> cl (c_queue (objs l ! c)) \<and> cp (c_queue (objs l ! c)) = receiveBacklog"
    using assms unfolding conn_inv_def by blast
  then show "c < length (objs l)" "\<exists>a. c_rAddr (objs l ! c) = Some a \<and> addr_String a = k" "conn_key l c = k"
    "\<not> cl (c_queue (objs l ! c))" "cp (c_queue (objs l ! c)) = receiveBacklog"
    by (auto simp: conn_key_def split: option.splits)
qed

section \<open>The abstract specification\<close>

text \<open>
  A packet as the application sees it; the abstract multiplexer: whether it accepts, the remote
  keys that wait for \<open>Accept\<close>, in order, and the undelivered packets of each remote key.
\<close>

type_synonym packet = "byte list \<times> byte list \<times> ECN"

record mux =
  mx_accepting :: bool
  mx_waiting :: "string list"
  mx_stream :: "string \<Rightarrow> packet list option"

definition mux_init :: mux where
  "mux_init = \<lparr>mx_accepting = True, mx_waiting = [], mx_stream = Map.empty\<rparr>"

text \<open>
  A packet from a known remote is appended to its stream, unless the stream holds \<open>receiveBacklog\<close>
  packets.  A packet from a new remote opens a stream if the multiplexer accepts, the filter lets
  it pass and fewer than \<open>room\<close> remotes wait.  Otherwise the packet is dropped.
\<close>

definition mux_dispatch :: "(byte list \<Rightarrow> bool) option \<Rightarrow> nat \<Rightarrow> string \<times> packet \<Rightarrow> mux \<Rightarrow> mux" where
  "mux_dispatch filt room kp m =
     (case kp of (k, d, oob, e) \<Rightarrow>
      case mx_stream m k of
        Some ps \<Rightarrow>
          if length ps < receiveBacklog
          then m\<lparr>mx_stream := (mx_stream m)(k \<mapsto> ps @ [(d, oob, e)])\<rparr> else m
      | None \<Rightarrow>
          if mx_accepting m \<and> (case filt of None \<Rightarrow> True | Some f \<Rightarrow> f d)
             \<and> length (mx_waiting m) < room
          then m\<lparr>mx_waiting := mx_waiting m @ [k], mx_stream := (mx_stream m)(k \<mapsto> [(d, oob, e)])\<rparr>
          else m)"

text \<open>The abstraction of a super connection.\<close>

definition pkt_value :: "byte list list \<Rightarrow> receivedPacket \<Rightarrow> packet" where
  "pkt_value bs p = (bs ! the (pkt_data p), bs ! the (pkt_oob p), pkt_ecn p)"

definition stream :: "('q \<Rightarrow> receivedPacket list) \<Rightarrow> ('q, 'd) supConn \<Rightarrow> nat \<Rightarrow> packet list" where
  "stream ct l c = map (pkt_value (bufs l)) (ct (c_queue (objs l ! c)))"

definition abs_mux :: "('q \<Rightarrow> receivedPacket list) \<Rightarrow> ('q, 'd) supConn \<Rightarrow> mux" where
  "abs_mux ct l =
     \<lparr>mx_accepting = accepting l, mx_waiting = map (conn_key l) (acceptCh l),
      mx_stream = (\<lambda>k. map_option (stream ct l) (map_of (conns l) k))\<rparr>"

lemma mux_dispatch_accepting [simp]: "mx_accepting (mux_dispatch filt room kp m) = mx_accepting m"
  by (auto simp: mux_dispatch_def split: prod.splits option.splits)

section \<open>The operations keep the invariants and implement the specification\<close>

text \<open>Only the contents of buffers in hand are written.\<close>

lemma stream_frame:
  assumes "buf_inv ct l hand" and "i < length (objs l)" and "objs l' ! i = objs l ! i"
    and "\<And>a. a \<notin> set hand \<Longrightarrow> a < length (bufs l) \<Longrightarrow> bufs l' ! a = bufs l ! a"
  shows "stream ct l' i = stream ct l i"
proof -
  have "pkt_value (bufs l') p = pkt_value (bufs l) p" if p: "p \<in> set (ct (c_queue (objs l ! i)))" for p
  proof -
    have "full_pkt p"
      using buf_invD(3) [OF assms(1) _ p] assms(2) by simp
    then obtain a b where ab: "pkt_data p = Some a" "pkt_oob p = Some b"
      by (auto simp: full_pkt_def)
    have "0 < pkt_refs p a" "0 < pkt_refs p b"
      by (auto simp: pkt_refs_def ab)
    then have "0 < refs ct l hand a" "0 < refs ct l hand b"
      using pkt_refs_le [of p ct "objs l ! i"] p conn_refs_le [OF assms(2), of ct _ hand]
      by (meson dual_order.strict_trans1 order_less_le_trans)+
    moreover have "a \<notin> set hand" "b \<notin> set hand"
      using hand_not_queued [OF assms(1) _ assms(2) p] ab by auto
    ultimately show ?thesis
      using assms(4) buf_invD(2) [OF assms(1)] ab by (simp add: pkt_value_def)
  qed
  then show ?thesis
    by (simp add: stream_def assms(3))
qed

text \<open>Buffers move between the pools and a goroutine's hand without gaining a second owner.\<close>

lemma refs_simps:
  "refs ct (l\<lparr>bufs := bs\<rparr>) hand a = refs ct l hand a"
  "refs ct (l\<lparr>bufPool := bp\<rparr>) hand a + count_list (bufPool l) a = refs ct l hand a + count_list bp a"
  "refs ct (l\<lparr>oobPool := op\<rparr>) hand a + count_list (oobPool l) a = refs ct l hand a + count_list op a"
  "refs ct l (x # hand) a = refs ct l hand a + (if x = a then 1 else 0)"
  by (simp_all add: refs_def)

lemma refs_cong:
  assumes "bufPool l' = bufPool l" "oobPool l' = oobPool l" "objs l' = objs l"
  shows "refs ct l' hand a = refs ct l hand a"
  using assms by (simp add: refs_def)

lemma buf_inv_cong:
  assumes "bufPool l' = bufPool l" "oobPool l' = oobPool l" "objs l' = objs l"
    "length (bufs l') = length (bufs l)"
  shows "buf_inv ct l' hand \<longleftrightarrow> buf_inv ct l hand"
  using assms by (simp add: buf_inv_def refs_def)

text \<open>Taking \<open>a\<close> from a place that held it, or a new buffer, into the hand.\<close>

lemma buf_inv_take:
  assumes inv: "buf_inv ct l hand" and objs: "objs l' = objs l"
    and len: "length (bufs l) \<le> length (bufs l')" "a < length (bufs l')"
    and moved: "(\<forall>x. refs ct l' [] x + (if x = a then 1 else 0) = refs ct l [] x)
      \<or> a = length (bufs l) \<and> (\<forall>x. refs ct l' [] x = refs ct l [] x)"
  shows "buf_inv ct l' (a # hand)"
proof (rule buf_invI)
  have hand: "refs ct k hand x = refs ct k [] x + count_list hand x" for k :: "('a, 'b) supConn" and x
    by (simp add: refs_def)
  have le: "refs ct l' (a # hand) x \<le> 1 \<and> (0 < refs ct l' (a # hand) x \<longrightarrow> x < length (bufs l'))" for x
    using moved
  proof
    assume *: "\<forall>x. refs ct l' [] x + (if x = a then 1 else 0) = refs ct l [] x"
    have "refs ct l' (a # hand) x = refs ct l hand x"
      using * [rule_format, of x] by (auto simp: refs_simps hand)
    then show ?thesis
      using buf_invD(1,2) [OF inv, of x] len(1) by auto
  next
    assume *: "a = length (bufs l) \<and> (\<forall>x. refs ct l' [] x = refs ct l [] x)"
    then have "refs ct l hand a = 0"
      using buf_invD(2) [OF inv, of a] by auto
    then show ?thesis
      using * buf_invD(1,2) [OF inv, of x] len by (auto simp: refs_simps hand)
  qed
  then show "refs ct l' (a # hand) x \<le> 1" "0 < refs ct l' (a # hand) x \<Longrightarrow> x < length (bufs l')" for x
    by auto
  show "full_pkt p" if "c \<in> set (objs l')" "p \<in> set (ct (c_queue c))" for c p
    using that buf_invD(3) [OF inv] objs by simp
qed

lemma buf_inv_putData:
  assumes "buf_inv ct l (a # hand)"
  shows "buf_inv ct (putData L a l) hand"
  by (rule buf_inv_mono [OF assms]) (use buf_invD(3) [OF assms] in \<open>auto simp: putData_def refs_def\<close>)

lemma buf_inv_putOob:
  assumes "buf_inv ct l (a # hand)"
  shows "buf_inv ct (putOob L a l) hand"
  by (rule buf_inv_mono [OF assms]) (use buf_invD(3) [OF assms] in \<open>auto simp: putOob_def refs_def\<close>)

text \<open>
  A raw connection delivers the packet \<open>pkt\<close> from \<open>a\<close> when, called with slices of at least the sizes
  the read loop uses, it returns no error, counts within the slices, and leaves the packet in them.
\<close>

definition delivers :: "(byte list \<Rightarrow> byte list \<Rightarrow> raw_read) \<Rightarrow> net_addr \<Rightarrow> packet \<Rightarrow> bool" where
  "delivers rd a pkt \<longleftrightarrow>
     (\<forall>b oob. receiveMTU \<le> length b \<longrightarrow> oobSize \<le> length oob \<longrightarrow>
       (let r = rd b oob in
        rr_err r = None \<and> rr_addr r = Some a
        \<and> length (rr_b r) = length b \<and> length (rr_oob r) = length oob
        \<and> 0 \<le> rr_n r \<and> rr_n r \<le> int (length b) \<and> 0 \<le> rr_oobN r \<and> rr_oobN r \<le> int (length oob)
        \<and> pkt = (take (nat (rr_n r)) (rr_b r), take (nat (rr_oobN r)) (rr_oob r), rr_ecn r)))"

context udp_lib
begin

lemma newSubConn_ok:
  "\<exists>c. newSubConn L l a = Ret c \<and> ct (c_queue c) = [] \<and> cp (c_queue c) = receiveBacklog
     \<and> \<not> cl (c_queue c) \<and> c_rAddr c = a \<and> \<not> c_doneCh c \<and> \<not> c_doneOnce c \<and> (\<forall>now. it now (c_queue c))"
proof -
  obtain q where q: "rq_NewSafe (lib_rq L) receiveBacklog WhenFullError WhenEmptyBlock = Inr q"
    using rq.NewSafe_ok [of receiveBacklog] by (auto simp: receiveBacklog_def)
  from rq.NewSafe_empty [OF q] q show ?thesis
    by (simp add: newSubConn_def)
qed

lemma pool_get_cases:
  assumes "pool_get L p bs = (a, p', bs')"
  obtains (reused) "a \<in> set p" "p' = remove1 a p" "bs' = bs"
    | (fresh) "a = length bs" "p' = p" "bs' = bs @ [[]]"
proof (cases "pool_pick L p")
  case None
  with assms have "a = length bs" "p' = p" "bs' = bs @ [[]]"
    by (simp_all add: pool_get_def)
  then show ?thesis by (rule fresh)
next
  case (Some b)
  with assms have "b = a" "p' = remove1 a p" "bs' = bs"
    by (auto simp: pool_get_def)
  with pool.pick_mem [OF Some] show ?thesis by (intro reused) simp_all
qed

lemma pool_get_data:
  assumes "pool_get L (bufPool l) (bufs l) = (a, p', bs)" and "buf_inv ct l hand"
  shows "buf_inv ct (l\<lparr>bufPool := p', bufs := bs[a := x]\<rparr>) (a # hand)"
  using assms(1)
proof (cases rule: pool_get_cases)
  case reused
  then have "a < length (bufs l)"
    using buf_invD(2) [OF assms(2), of a] by (auto simp: refs_def count_list_pos)
  moreover have "refs ct (l\<lparr>bufPool := p', bufs := bs[a := x]\<rparr>) [] y + (if y = a then 1 else 0)
      = refs ct l [] y" for y
    using count_list_remove1_mem [OF reused(1), of y] reused(2) by (simp add: refs_def)
  ultimately show ?thesis
    using reused(3) by (intro buf_inv_take [OF assms(2)]) simp_all
next
  case fresh
  then show ?thesis
    by (intro buf_inv_take [OF assms(2)]) (simp_all add: refs_def)
qed

lemma pool_get_oob:
  assumes "pool_get L (oobPool l) (bufs l) = (a, p', bs)" and "buf_inv ct l hand"
  shows "buf_inv ct (l\<lparr>oobPool := p', bufs := bs[a := x]\<rparr>) (a # hand)"
  using assms(1)
proof (cases rule: pool_get_cases)
  case reused
  then have "a < length (bufs l)"
    using buf_invD(2) [OF assms(2), of a] by (auto simp: refs_def count_list_pos)
  moreover have "refs ct (l\<lparr>oobPool := p', bufs := bs[a := x]\<rparr>) [] y + (if y = a then 1 else 0)
      = refs ct l [] y" for y
    using count_list_remove1_mem [OF reused(1), of y] reused(2) by (simp add: refs_def)
  ultimately show ?thesis
    using reused(3) by (intro buf_inv_take [OF assms(2)]) simp_all
next
  case fresh
  then show ?thesis
    by (intro buf_inv_take [OF assms(2)]) (simp_all add: refs_def)
qed

lemma pool_get_frame:
  assumes "pool_get L p bs = (a, p', bs')" and "x < length bs"
  shows "bs' ! x = bs ! x \<and> x < length bs'"
  using assms(1) by (cases rule: pool_get_cases) (use assms(2) in \<open>auto simp: nth_append\<close>)

lemma pool_get_old:
  assumes "pool_get L p bs = (a, p', bs')" and "x < length bs'" and "x \<noteq> a"
  shows "bs' ! x = bs ! x \<and> x < length bs"
  using assms(1) by (cases rule: pool_get_cases) (use assms(2,3) in \<open>auto simp: nth_append\<close>)

lemma hand_bound: "buf_inv ct l hand \<Longrightarrow> a \<in> set hand \<Longrightarrow> a < length (bufs l)"
  using buf_invD(2) [of ct l hand a] by (auto simp: refs_def count_list_pos)

lemma hand_distinct: "buf_inv ct l (a # b # hand) \<Longrightarrow> a \<noteq> b"
  using buf_invD(1) [of ct l "a # b # hand" a] by (auto simp: refs_def)

text \<open>The two buffers a loop iteration obtains.\<close>

lemma readLoop_buffers_ok:
  assumes get: "readLoop_buffers L l = (b, ob, l')" and inv: "buf_inv ct l hand"
  shows "buf_inv ct l' (ob # b # hand)"
    and "receiveMTU \<le> length (bufs l' ! b)" and "oobSize \<le> length (bufs l' ! ob)"
    and "\<exists>bp op bs. l' = l\<lparr>bufPool := bp, oobPool := op, bufs := bs\<rparr>"
    and "x \<noteq> b \<Longrightarrow> x \<noteq> ob \<Longrightarrow> x < length (bufs l') \<Longrightarrow> bufs l' ! x = bufs l ! x"
proof -
  obtain bp bs1 where g1: "pool_get L (bufPool l) (bufs l) = (b, bp, bs1)"
    using get by (auto simp: readLoop_buffers_def Let_def split: prod.splits)
  define bs2 where "bs2 = bs1[b := grow receiveMTU (bs1 ! b)]"
  define l1 where "l1 = l\<lparr>bufPool := bp, bufs := bs2\<rparr>"
  obtain op bs3 where g2: "pool_get L (oobPool l1) (bufs l1) = (ob, op, bs3)"
    and l': "l' = l1\<lparr>oobPool := op, bufs := bs3[ob := grow oobSize (bs3 ! ob)]\<rparr>"
    using get g1 by (auto simp: readLoop_buffers_def Let_def l1_def bs2_def split: prod.splits)
  have inv1: "buf_inv ct l1 (b # hand)"
    unfolding l1_def bs2_def by (rule pool_get_data [OF g1 inv])
  show inv2: "buf_inv ct l' (ob # b # hand)"
    unfolding l' by (rule pool_get_oob [OF g2 inv1])
  have ne: "ob \<noteq> b" and lens: "b < length (bufs l')" "ob < length (bufs l')" and "b < length (bufs l1)"
    using hand_distinct [OF inv2] hand_bound [OF inv2] hand_bound [OF inv1] by auto
  then have "bufs l' ! b = grow receiveMTU (bs1 ! b)" "bufs l' ! ob = grow oobSize (bs3 ! ob)"
    using pool_get_frame [OF g2, of b] by (simp_all add: l' l1_def bs2_def)
  then show "receiveMTU \<le> length (bufs l' ! b)" "oobSize \<le> length (bufs l' ! ob)"
    by (simp_all add: length_grow)
  show "\<exists>bp op bs. l' = l\<lparr>bufPool := bp, oobPool := op, bufs := bs\<rparr>"
    unfolding l' l1_def by (intro exI) simp
  show "bufs l' ! x = bufs l ! x" if "x \<noteq> b" "x \<noteq> ob" "x < length (bufs l')"
    using pool_get_old [OF g2, of x] pool_get_old [OF g1, of x] that
    by (simp add: l' l1_def bs2_def)
qed

text \<open>A packet pushed to a queue takes its two buffers along; a full queue drops them.\<close>

lemma pushPacket_buf_inv:
  assumes inv: "buf_inv ct l (ob # b # hand)" and i: "i < length (objs l)"
  shows "buf_inv ct (pushPacket L i \<lparr>pkt_data = Some b, pkt_oob = Some ob, pkt_ecn = e\<rparr> l) hand"
proof -
  let ?p = "\<lparr>pkt_data = Some b, pkt_oob = Some ob, pkt_ecn = e\<rparr>"
  let ?l = "pushPacket L i ?p l"
  obtain er q where push: "rq_Push (lib_rq L) ?p (c_queue (objs l ! i)) = (er, q)"
    by fastforce
  let ?c = "(objs l ! i)\<lparr>c_queue := q\<rparr>"
  have objs: "objs ?l = (objs l)[i := ?c]"
    by (simp add: pushPacket_def push)
  have more: "conn_refs ct a ?c \<le> conn_refs ct a (objs l ! i) + pkt_refs ?p a" for a
    using rq.Push_content [OF push] by (auto simp: conn_refs_def)
  have "refs ct ?l hand a \<le> refs ct l (ob # b # hand) a" for a
    using refs_update_conn [OF i objs, of ct hand a] more [of a]
    by (simp add: refs_simps pkt_refs_def split: if_splits)
  moreover have "full_pkt p" if "c \<in> set (objs ?l)" "p \<in> set (ct (c_queue c))" for c p
  proof -
    have "c \<in> set (objs l) \<or> c = ?c"
      using that(1) objs set_update_subset_insert [of "objs l" i ?c] by auto
    then show ?thesis
    proof
      assume "c \<in> set (objs l)"
      then show ?thesis using buf_invD(3) [OF inv] that(2) by blast
    next
      assume "c = ?c"
      then have "p \<in> set (ct (c_queue (objs l ! i))) \<or> p = ?p"
        using that(2) rq.Push_content [OF push] by (auto split: if_splits)
      then show ?thesis
        using buf_invD(3) [OF inv nth_mem [OF i]] by (auto simp: full_pkt_def)
    qed
  qed
  ultimately show ?thesis
    by (intro buf_inv_mono [OF inv]) simp_all
qed

text \<open>The table invariant and the streams after a push.\<close>

lemma pushPacket_nth:
  "i < length (objs l) \<Longrightarrow> objs (pushPacket L i p l) ! j =
     (if j = i then (objs l ! i)\<lparr>c_queue := snd (rq_Push (lib_rq L) p (c_queue (objs l ! i)))\<rparr> else objs l ! j)"
  by (simp add: pushPacket_def Let_def)

lemma pushPacket_conn_key [simp]: "i < length (objs l) \<Longrightarrow> conn_key (pushPacket L i p l) j = conn_key l j"
  by (simp add: conn_key_def pushPacket_nth)

lemma pushPacket_conn_inv:
  assumes "conn_inv cp cl l" and i: "i < length (objs l)"
  shows "conn_inv cp cl (pushPacket L i p l)"
proof -
  obtain e q where push: "rq_Push (lib_rq L) p (c_queue (objs l ! i)) = (e, q)"
    by fastforce
  have frame: "cp q = cp (c_queue (objs l ! i)) \<and> cl q = cl (c_queue (objs l ! i))"
    using rq.Push_frame [OF push] by blast
  show ?thesis
    using assms(1) i frame by (simp add: conn_inv_def pushPacket_nth push)
qed

lemma pushPacket_stream:
  assumes "i < length (objs l)" and "\<not> cl (c_queue (objs l ! i))" and "cp (c_queue (objs l ! i)) = receiveBacklog"
  shows "stream ct (pushPacket L i p l) j =
    (if j = i \<and> length (stream ct l i) < receiveBacklog then stream ct l i @ [pkt_value (bufs l) p]
     else stream ct l j)"
proof -
  obtain e q where push: "rq_Push (lib_rq L) p (c_queue (objs l ! i)) = (e, q)"
    by fastforce
  show ?thesis
    using assms rq.Push_content [OF push] by (auto simp: stream_def pushPacket_nth push)
qed

text \<open>Pushing to the connection in the table under a key appends to the stream of that key.\<close>

lemma abs_push:
  assumes inv: "conn_inv cp cl l" and k: "map_of (conns l) k = Some c"
  shows "abs_mux ct (pushPacket L c p l) =
    (if length (stream ct l c) < receiveBacklog
     then (abs_mux ct l)\<lparr>mx_stream := (mx_stream (abs_mux ct l))(k \<mapsto> stream ct l c @ [pkt_value (bufs l) p])\<rparr>
     else abs_mux ct l)"
proof -
  note c = conn_inv_lookup [OF inv k]
  have only: "map_of (conns l) k' = Some c \<Longrightarrow> k' = k" for k'
    using map_of_distinct_snd [OF conn_invD(2) [OF inv] _ k] by simp
  have "map_option (stream ct (pushPacket L c p l)) (map_of (conns l) k') =
    (if k' = k \<and> length (stream ct l c) < receiveBacklog then Some (stream ct l c @ [pkt_value (bufs l) p])
     else map_option (stream ct l) (map_of (conns l) k'))" for k'
    using k only [of k'] pushPacket_stream [OF c(1,4,5)] by (cases "map_of (conns l) k'") auto
  then show ?thesis
    using c(1) by (auto simp: abs_mux_def fun_eq_iff)
qed

text \<open>A new connection object changes nothing until it is in the table.\<close>

lemma new_conn_frame:
  assumes buf: "buf_inv ct l hand" and inv: "conn_inv cp cl l" and empty: "ct (c_queue conn) = []"
  defines "l1 \<equiv> l\<lparr>objs := objs l @ [conn]\<rparr>"
  shows "buf_inv ct l1 hand" and "conn_inv cp cl l1" and "abs_mux ct l1 = abs_mux ct l"
proof -
  have "refs ct l1 hand a = refs ct l hand a" for a
    by (simp add: refs_def l1_def conn_refs_def empty)
  then show "buf_inv ct l1 hand"
    using buf empty by (auto simp: buf_inv_def l1_def)
  have nth: "c < length (objs l) \<Longrightarrow> objs l1 ! c = objs l ! c" for c
    by (simp add: l1_def nth_append)
  have key: "c < length (objs l) \<Longrightarrow> conn_key l1 c = conn_key l c" for c
    by (simp add: conn_key_def nth)
  have str: "c < length (objs l) \<Longrightarrow> stream ct l1 c = stream ct l c" for c
    by (simp add: stream_def nth) (simp add: l1_def)
  have bound: "map_of (conns l) k = Some c \<Longrightarrow> c < length (objs l)" for k c
    using conn_inv_lookup(1) [OF inv] .
  show "conn_inv cp cl l1"
    using inv nth key bound unfolding conn_inv_def by (simp add: l1_def) (metis less_SucI)
  have acc: "c \<in> set (acceptCh l) \<Longrightarrow> c < length (objs l)" for c
    using conn_invD(1,4) [OF inv] bound by (force simp: image_iff)
  have "map (conn_key l1) (acceptCh l1) = map (conn_key l) (acceptCh l)"
    using acc key by (simp add: l1_def)
  moreover have "map_option (stream ct l1) (map_of (conns l1) k) = map_option (stream ct l) (map_of (conns l) k)" for k
    using bound str by (cases "map_of (conns l) k") (auto simp: l1_def)
  ultimately show "abs_mux ct l1 = abs_mux ct l"
    by (simp add: abs_mux_def) (simp add: l1_def)
qed

text \<open>Registering a new connection object under the key of its address.\<close>

lemma register_conn_inv:
  assumes inv: "conn_inv cp cl l" and buf: "buf_inv ct l hand"
    and new: "map_of (conns l) (addr_String a) = None"
    and conn: "ct (c_queue conn) = []" "cp (c_queue conn) = receiveBacklog" "\<not> cl (c_queue conn)"
      "c_rAddr conn = Some a"
    and room: "length (acceptCh l) < acceptCap l + parked l"
    and l2: "l2 = l\<lparr>objs := objs l @ [conn], acceptCh := acceptCh l @ [length (objs l)],
      conns := AList.update (addr_String a) (length (objs l)) (conns l)\<rparr>"
  shows "conn_inv cp cl l2"
  unfolding conn_inv_def
proof (intro conjI allI impI)
  let ?l1 = "l\<lparr>objs := objs l @ [conn]\<rparr>"
  note old = conn_inv_lookup [OF new_conn_frame(2) [OF buf inv conn(1)]]
  have upd: "conns l2 = conns l @ [(addr_String a, length (objs l))]"
    by (simp add: l2 update_fresh [OF new])
  have fresh: "length (objs l) \<notin> snd ` set (conns l)"
    using conn_inv_lookup(1) [OF inv] conn_invD(1) [OF inv] by (force simp: image_iff)
  show "map_wf (conns l2)" "distinct (map snd (conns l2))"
    using conn_invD(1,2) [OF inv] fresh new by (simp_all add: upd map_of_eq_None_iff)
  show "distinct (acceptCh l2)" "set (acceptCh l2) \<subseteq> snd ` set (conns l2)"
    "length (acceptCh l2) \<le> acceptCap l2 + parked l2"
    using conn_invD(3,4) [OF inv] fresh room by (auto simp: upd) (auto simp: l2)
  fix k c
  assume "map_of (conns l2) k = Some c"
  then have kc: "k = addr_String a \<and> c = length (objs l) \<or> map_of (conns ?l1) k = Some c \<and> c < length (objs l)"
    using conn_inv_lookup(1) [OF inv, of k c] by (simp add: l2 map_simps split: if_splits)
  have nth: "objs l2 ! c = (if c = length (objs l) then conn else objs ?l1 ! c)"
    "conn_key l2 c = (if c = length (objs l) then addr_String a else conn_key ?l1 c)"
    by (simp_all add: l2 conn_key_def conn(4))
  show "c < length (objs l2)"
    using kc by (auto simp: l2)
  show "c_rAddr (objs l2 ! c) \<noteq> None" "conn_key l2 c = k"
    using kc conn(4) old(2,3) [of k c] by (auto simp: nth)
  show "\<not> cl (c_queue (objs l2 ! c))" "cp (c_queue (objs l2 ! c)) = receiveBacklog"
    using kc conn(2,3) old(4,5) [of k c] by (auto simp: nth)
qed

lemma register_conn:
  assumes inv: "conn_inv cp cl l" and buf: "buf_inv ct l hand"
    and new: "map_of (conns l) (addr_String a) = None"
    and conn: "ct (c_queue conn) = []" "cp (c_queue conn) = receiveBacklog" "\<not> cl (c_queue conn)"
      "c_rAddr conn = Some a"
    and room: "length (acceptCh l) < acceptCap l + parked l"
  defines "l2 \<equiv> l\<lparr>objs := objs l @ [conn], acceptCh := acceptCh l @ [length (objs l)],
      conns := AList.update (addr_String a) (length (objs l)) (conns l)\<rparr>"
  shows "buf_inv ct l2 hand" and "conn_inv cp cl l2"
    and "abs_mux ct l2 = (abs_mux ct l)\<lparr>mx_waiting := mx_waiting (abs_mux ct l) @ [addr_String a],
      mx_stream := (mx_stream (abs_mux ct l))(addr_String a \<mapsto> [])\<rparr>"
proof -
  let ?l1 = "l\<lparr>objs := objs l @ [conn]\<rparr>"
  note frame = new_conn_frame [OF buf inv conn(1)]
  show "buf_inv ct l2 hand"
    using frame(1) buf_inv_cong [of l2 ?l1 ct hand] by (simp add: l2_def)
  show "conn_inv cp cl l2"
    by (rule register_conn_inv [OF inv buf new conn room meta_eq_to_obj_eq [OF l2_def]])
  have look: "map_of (conns l2) k = (if k = addr_String a then Some (length (objs l)) else map_of (conns l) k)" for k
    by (simp add: l2_def map_simps)
  have str: "stream ct l2 c = (if c = length (objs l) then [] else stream ct ?l1 c)" for c
    by (simp add: stream_def l2_def conn(1))
  have "c \<noteq> length (objs l)" if "c \<in> set (acceptCh l)" for c
    using that conn_invD(1,4) [OF inv] conn_inv_lookup(1) [OF inv] by (force simp: image_iff)
  then have "map (conn_key l2) (acceptCh l2) = map (conn_key ?l1) (acceptCh l) @ [addr_String a]"
    by (simp add: l2_def conn_key_def conn(4))
  moreover have "map_option (stream ct l2) (map_of (conns l2) k) =
      (if k = addr_String a then Some [] else map_option (stream ct ?l1) (map_of (conns ?l1) k))" for k
    using conn_inv_lookup(1) [OF inv, of k] str by (cases "map_of (conns l) k") (auto simp: look)
  ultimately show "abs_mux ct l2 = (abs_mux ct l)\<lparr>mx_waiting := mx_waiting (abs_mux ct l) @ [addr_String a],
      mx_stream := (mx_stream (abs_mux ct l))(addr_String a \<mapsto> [])\<rparr>"
    using frame(3) by (simp add: abs_mux_def fun_eq_iff l2_def)
qed

text \<open>\<open>dispatchMsg\<close> on a listener implements \<open>mux_dispatch\<close>.\<close>

lemma rAddrString_Some [simp]: "rAddrString m (Some a) = addr_String a"
  by (simp add: rAddrString_def)

lemma drop_hand: "buf_inv ct m (ob # b # hand) \<Longrightarrow> buf_inv ct m hand"
  by (rule buf_inv_mono) (auto simp: refs_simps dest: buf_invD(3))

text \<open>A packet of a known remote, and of one that gets no connection.\<close>

lemma dispatch_known:
  assumes inv: "conn_inv cp cl l" and k: "map_of (conns l) (addr_String a) = Some c"
    and l': "l' = pushPacket L c \<lparr>pkt_data = Some b, pkt_oob = Some ob, pkt_ecn = e\<rparr> l"
  shows "dispatchMsg L (Some a) b ob e l = Ret l'"
    and "abs_mux ct l' = mux_dispatch (acceptFilter l) (acceptCap l + parked l)
      (addr_String a, bufs l ! b, bufs l ! ob, e) (abs_mux ct l)"
  using abs_push [OF inv k, of "\<lparr>pkt_data = Some b, pkt_oob = Some ob, pkt_ecn = e\<rparr>"] k
  by (simp_all add: l' dispatchMsg_def getSubConn_def mux_dispatch_def pkt_value_def) (simp add: abs_mux_def)

lemma dispatch_dropped:
  assumes new: "map_of (conns l) (addr_String a) = None" and lis: "isListener l" and conn: "newSubConn L l (Some a) = Ret conn"
    and no: "\<not> accepting l \<or> \<not> (case acceptFilter l of None \<Rightarrow> True | Some f \<Rightarrow> f (bufs l ! b))
      \<or> \<not> length (acceptCh l) < acceptCap l + parked l"
  shows "dispatchMsg L (Some a) b ob e l \<in> {Ret l, Ret (l\<lparr>objs := objs l @ [conn]\<rparr>)}"
    and "mux_dispatch (acceptFilter l) (acceptCap l + parked l) (addr_String a, bufs l ! b, bufs l ! ob, e) (abs_mux ct l) = abs_mux ct l"
  using assms by (auto simp: dispatchMsg_def getSubConn_def Let_def mux_dispatch_def abs_mux_def split: option.splits)

lemma dispatch_new:
  assumes inv: "conn_inv cp cl l" and buf: "buf_inv ct l hand" and new: "map_of (conns l) (addr_String a) = None" and lis: "isListener l"
    and conn: "newSubConn L l (Some a) = Ret conn" "ct (c_queue conn) = []" "cp (c_queue conn) = receiveBacklog"
      "\<not> cl (c_queue conn)" "c_rAddr conn = Some a"
    and ok: "accepting l" "case acceptFilter l of None \<Rightarrow> True | Some f \<Rightarrow> f (bufs l ! b)" "length (acceptCh l) < acceptCap l + parked l"
    and l2: "l2 = l\<lparr>objs := objs l @ [conn], acceptCh := acceptCh l @ [length (objs l)],
      conns := AList.update (addr_String a) (length (objs l)) (conns l)\<rparr>"
    and p: "p = \<lparr>pkt_data = Some b, pkt_oob = Some ob, pkt_ecn = e\<rparr>"
  shows "dispatchMsg L (Some a) b ob e l = Ret (pushPacket L (length (objs l)) p l2)"
    and "abs_mux ct (pushPacket L (length (objs l)) p l2) = mux_dispatch (acceptFilter l) (acceptCap l + parked l)
      (addr_String a, bufs l ! b, bufs l ! ob, e) (abs_mux ct l)"
proof -
  note reg = register_conn [OF inv buf new conn(2-5) ok(3), folded l2]
  show "dispatchMsg L (Some a) b ob e l = Ret (pushPacket L (length (objs l)) p l2)"
    using ok new lis conn(1) by (auto simp: dispatchMsg_def getSubConn_def Let_def l2 p split: option.splits)
  have k: "map_of (conns l2) (addr_String a) = Some (length (objs l))"
    by (simp add: l2 map_simps)
  have "stream ct l2 (length (objs l)) = []" "length (mx_waiting (abs_mux ct l)) = length (acceptCh l)"
    by (simp_all add: stream_def conn(2) l2 abs_mux_def)
  then show "abs_mux ct (pushPacket L (length (objs l)) p l2) = mux_dispatch (acceptFilter l) (acceptCap l + parked l)
      (addr_String a, bufs l ! b, bufs l ! ob, e) (abs_mux ct l)"
    using abs_push [OF reg(2) k, of p] reg(3) ok new
    by (simp add: mux_dispatch_def pkt_value_def receiveBacklog_def p) (auto simp: abs_mux_def l2)
qed

lemma dispatchMsg_refines:
  assumes inv: "conn_inv cp cl l" and buf: "buf_inv ct l (ob # b # hand)" and lis: "isListener l"
  shows "\<exists>l'. dispatchMsg L (Some a) b ob e l = Ret l' \<and> conn_inv cp cl l' \<and> buf_inv ct l' hand
    \<and> abs_mux ct l' = mux_dispatch (acceptFilter l) (acceptCap l + parked l)
        (addr_String a, bufs l ! b, bufs l ! ob, e) (abs_mux ct l)
    \<and> isListener l' \<and> acceptFilter l' = acceptFilter l \<and> acceptCap l' = acceptCap l \<and> parked l' = parked l"
proof (cases "map_of (conns l) (addr_String a)")
  case (Some c)
  note c = conn_inv_lookup(1) [OF inv Some]
  show ?thesis
    using dispatch_known [OF inv Some refl, of b ob e] pushPacket_conn_inv [OF inv c] pushPacket_buf_inv [OF buf c] lis by simp
next
  case None
  obtain conn where conn: "newSubConn L l (Some a) = Ret conn" "ct (c_queue conn) = []"
    "cp (c_queue conn) = receiveBacklog" "\<not> cl (c_queue conn)" "c_rAddr conn = Some a"
    using newSubConn_ok [of l "Some a"] by blast
  show ?thesis
  proof (cases "accepting l \<and> (case acceptFilter l of None \<Rightarrow> True | Some f \<Rightarrow> f (bufs l ! b))
      \<and> length (acceptCh l) < acceptCap l + parked l")
    case True
    then have ok: "accepting l" "case acceptFilter l of None \<Rightarrow> True | Some f \<Rightarrow> f (bufs l ! b)"
      "length (acceptCh l) < acceptCap l + parked l" by simp_all
    note reg = register_conn(1,2) [OF inv buf None conn(2-5) ok(3)]
    show ?thesis
      using dispatch_new [OF inv buf None lis conn ok refl refl, of ob e]
        pushPacket_conn_inv [OF reg(2), of "length (objs l)"] pushPacket_buf_inv [OF reg(1), of "length (objs l)"] lis
      by simp
  next
    case False
    then show ?thesis
      using dispatch_dropped [OF None lis conn(1), of b ob e] new_conn_frame [OF drop_hand [OF buf] inv conn(2)]
        inv drop_hand [OF buf] lis by auto
  qed
qed

lemma readLoop_iter_refines:
  assumes inv: "conn_inv cp cl l" and buf: "buf_inv ct l hand" and lis: "isListener l"
    and rd: "delivers rd a pkt"
  shows "\<exists>l'. readLoop_iter L rd l = Ret (True, l') \<and> conn_inv cp cl l' \<and> buf_inv ct l' hand
    \<and> abs_mux ct l' = mux_dispatch (acceptFilter l) (acceptCap l + parked l) (addr_String a, pkt) (abs_mux ct l)
    \<and> isListener l' \<and> acceptFilter l' = acceptFilter l \<and> acceptCap l' = acceptCap l \<and> parked l' = parked l"
proof -
  obtain b ob l1 where get: "readLoop_buffers L l = (b, ob, l1)"
    by (cases "readLoop_buffers L l") auto
  note ok = readLoop_buffers_ok [OF get buf]
  obtain bp op bs where l1: "l1 = l\<lparr>bufPool := bp, oobPool := op, bufs := bs\<rparr>"
    using ok(4) by blast
  define r where "r = rd (bufs l1 ! b) (bufs l1 ! ob)"
  have r: "rr_err r = None" "rr_addr r = Some a" "length (rr_b r) = length (bufs l1 ! b)"
    "length (rr_oob r) = length (bufs l1 ! ob)" "0 \<le> rr_n r" "rr_n r \<le> int (length (bufs l1 ! b))"
    "0 \<le> rr_oobN r" "rr_oobN r \<le> int (length (bufs l1 ! ob))"
    "pkt = (take (nat (rr_n r)) (rr_b r), take (nat (rr_oobN r)) (rr_oob r), rr_ecn r)"
    using rd ok(2,3) by (auto simp: delivers_def r_def Let_def)
  have ne: "ob \<noteq> b" and lens: "b < length (bufs l1)" "ob < length (bufs l1)"
    using hand_distinct [OF ok(1)] hand_bound [OF ok(1)] by auto
  let ?d = "take (nat (rr_n r)) (rr_b r)" and ?o = "take (nat (rr_oobN r)) (rr_oob r)"
  define l3 where "l3 = l1\<lparr>bufs := (bufs l1)[b := rr_b r, ob := rr_oob r, b := ?d, ob := ?o]\<rparr>"
  have at: "bufs l3 ! b = ?d" "bufs l3 ! ob = ?o"
    using ne lens by (simp_all add: l3_def)
  have iter: "readLoop_iter L rd l =
      go_bind (dispatchMsg L (Some a) b ob (rr_ecn r) l3) (\<lambda>l. Ret (True, l))"
    using r ne lens by (simp add: readLoop_iter_def readLoop_deliver_def get slice_to_def Let_def l3_def
        flip: r_def)
  have inv3: "conn_inv cp cl l3"
    using inv by (simp add: conn_inv_def conn_key_def l3_def l1)
  have buf3: "buf_inv ct l3 (ob # b # hand)"
    using ok(1) buf_inv_cong [of l3 l1 ct "ob # b # hand"] by (simp add: l3_def)
  have "stream ct l c = stream ct l1 c" "stream ct l3 c = stream ct l1 c" if "c < length (objs l)" for c
    using ok(5) that by (intro stream_frame [OF ok(1)]; auto simp: l3_def l1)+
  then have "map_option (stream ct l3) (map_of (conns l) k) = map_option (stream ct l) (map_of (conns l) k)" for k
    using conn_inv_lookup(1) [OF inv, of k] by (cases "map_of (conns l) k") auto
  then have abs: "abs_mux ct l3 = abs_mux ct l"
    by (simp add: abs_mux_def) (simp add: l3_def l1 conn_key_def)
  have same: "isListener l3 = isListener l" "acceptFilter l3 = acceptFilter l" "acceptCap l3 = acceptCap l"
    "parked l3 = parked l"
    by (simp_all add: l3_def l1)
  show ?thesis
    using dispatchMsg_refines [OF inv3 buf3, of a "rr_ecn r"] iter abs same at lis r(9) by auto
qed

text \<open>The loop over a sequence of datagrams.\<close>

lemma readLoop_refines:
  assumes "list_all2 (\<lambda>rd (a, pkt). delivers rd a pkt) rds dgrams"
    and "conn_inv cp cl l" and "buf_inv ct l hand" and "isListener l"
  shows "\<exists>l'. readLoop L rds l = Ret (True, l') \<and> conn_inv cp cl l' \<and> buf_inv ct l' hand \<and> isListener l'
    \<and> abs_mux ct l' = fold (mux_dispatch (acceptFilter l) (acceptCap l + parked l))
        (map (\<lambda>(a, pkt). (addr_String a, pkt)) dgrams) (abs_mux ct l)"
  using assms
proof (induction rds dgrams arbitrary: l rule: list_all2_induct)
  case Nil
  then show ?case by auto
next
  case (Cons rd rds x dgrams)
  obtain a pkt where x: "x = (a, pkt)" by (cases x) auto
  obtain l1 where l1: "readLoop_iter L rd l = Ret (True, l1)" "conn_inv cp cl l1" "buf_inv ct l1 hand"
    "abs_mux ct l1 = mux_dispatch (acceptFilter l) (acceptCap l + parked l) (addr_String a, pkt) (abs_mux ct l)"
    "isListener l1" "acceptFilter l1 = acceptFilter l" "acceptCap l1 = acceptCap l" "parked l1 = parked l"
    using readLoop_iter_refines [of l hand rd a pkt] Cons.hyps(1) Cons.prems x by auto
  show ?case
    using Cons.IH [OF l1(2,3,5)] l1 x by simp
qed

text \<open>\<open>Read\<close> hands out the head of the stream.\<close>

lemma set_queue_nth:
  "i < length (objs l) \<Longrightarrow> objs (set_queue i q l) ! j = (if j = i then (objs l ! i)\<lparr>c_queue := q\<rparr> else objs l ! j)"
  by (simp add: set_queue_def)

lemma pop_buf_inv:
  assumes buf: "buf_inv ct l hand" and i: "i < length (objs l)"
    and pop: "ct (c_queue (objs l ! i)) = x # ct q" and x: "pkt_data x = Some a" "pkt_oob x = Some b"
  shows "buf_inv ct (set_queue i q l) (a # b # hand)"
proof (rule buf_inv_mono [OF buf])
  let ?c = "(objs l ! i)\<lparr>c_queue := q\<rparr>"
  have "conn_refs ct y (objs l ! i) = conn_refs ct y ?c + pkt_refs x y" for y
    by (simp add: conn_refs_def pop)
  then show "refs ct (set_queue i q l) (a # b # hand) y \<le> refs ct l hand y" for y
    using refs_update_conn [OF i, of "set_queue i q l" ?c ct hand y] x
    by (auto simp: refs_simps pkt_refs_def set_queue_def)
  show "full_pkt p" if "c \<in> set (objs (set_queue i q l))" "p \<in> set (ct (c_queue c))" for c p
  proof -
    have "c \<in> set (objs l) \<or> c = ?c"
      using that(1) set_update_subset_insert [of "objs l" i ?c] by (auto simp: set_queue_def)
    then show ?thesis
      using buf_invD(3) [OF buf] buf_invD(3) [OF buf nth_mem [OF i]] that(2) pop by auto
  qed
qed (simp add: set_queue_def)

text \<open>
  Taking the first packet of a queue and giving its buffers back leaves every other stream as it was.
\<close>

lemma take_packet:
  assumes inv: "conn_inv cp cl l" and buf: "buf_inv ct l hand" and k: "map_of (conns l) k = Some c"
    and xs: "ct (c_queue (objs l ! c)) = x # xs" and x: "pkt_data x = Some a" "pkt_oob x = Some b"
    and q: "ct q = xs" "\<not> cl q" "cp q = receiveBacklog"
    and l': "l' = putOob L b (putData L a (set_queue c q l))"
  shows "buf_inv ct l' hand" and "conn_inv cp cl l'"
    and "abs_mux ct l' = (abs_mux ct l)\<lparr>mx_stream := (mx_stream (abs_mux ct l))(k \<mapsto> map (pkt_value (bufs l)) xs)\<rparr>"
proof -
  note c = conn_inv_lookup [OF inv k]
  let ?l1 = "set_queue c q l"
  have buf1: "buf_inv ct ?l1 (a # b # hand)"
    by (rule pop_buf_inv [OF buf c(1) _ x]) (simp add: xs q)
  show "buf_inv ct l' hand"
    unfolding l' by (intro buf_inv_putOob buf_inv_putData buf1)
  have frame: "conns l' = conns l" "acceptCh l' = acceptCh l" "accepting l' = accepting l"
    "acceptCap l' = acceptCap l" "parked l' = parked l" "length (objs l') = length (objs l)"
    by (simp_all add: l' putOob_def putData_def set_queue_def)
  have nth: "objs l' ! j = (if j = c then (objs l ! c)\<lparr>c_queue := q\<rparr> else objs l ! j)" for j
    using set_queue_nth [OF c(1)] by (simp add: l' putOob_def putData_def)
  have key: "conn_key l' j = conn_key l j" for j
    by (simp add: conn_key_def nth)
  show "conn_inv cp cl l'"
    using inv q(2,3) c by (simp add: conn_inv_def frame key nth)
  have "stream ct l' j = stream ct ?l1 j" if "j < length (objs l)" for j
    using that by (intro stream_frame [OF buf1]) (auto simp: l' putOob_def putData_def set_queue_def)
  moreover have "stream ct ?l1 j = (if j = c then map (pkt_value (bufs l)) xs else stream ct l j)" for j
    using q(1) by (simp add: stream_def set_queue_nth [OF c(1)]) (simp add: set_queue_def)
  ultimately have str: "stream ct l' j = (if j = c then map (pkt_value (bufs l)) xs else stream ct l j)"
    if "j < length (objs l)" for j
    using that by simp
  have only: "map_of (conns l) k' = Some c \<longleftrightarrow> k' = k" for k'
    using map_of_distinct_snd [OF conn_invD(2) [OF inv], of k' c k] k by blast
  have "map_option (stream ct l') (map_of (conns l) k') =
      (if k' = k then Some (map (pkt_value (bufs l)) xs) else map_option (stream ct l) (map_of (conns l) k'))" for k'
    using only [of k'] str conn_inv_lookup(1) [OF inv, of k'] by (cases "map_of (conns l) k'") auto
  then show "abs_mux ct l' = (abs_mux ct l)\<lparr>mx_stream := (mx_stream (abs_mux ct l))(k \<mapsto> map (pkt_value (bufs l)) xs)\<rparr>"
    by (simp add: abs_mux_def fun_eq_iff frame key)
qed

lemma Conn_Read_refines:
  assumes inv: "conn_inv cp cl l" and buf: "buf_inv ct l hand" and k: "map_of (conns l) k = Some c"
    and s: "stream ct l c = (d, o', e) # rest" and time: "it now (c_queue (objs l ! c))"
  shows "\<exists>l'. Conn_Read L now c p oob l =
      Ret (ReadRet (min (length p) (length d)) (min (length oob) (length o')) e None
             (snd (go_copy p d)) (snd (go_copy oob o')), l')
    \<and> conn_inv cp cl l' \<and> buf_inv ct l' hand
    \<and> abs_mux ct l' = (abs_mux ct l)\<lparr>mx_stream := (mx_stream (abs_mux ct l))(k \<mapsto> rest)\<rparr>"
proof -
  note c = conn_inv_lookup [OF inv k]
  obtain x xs where xs: "ct (c_queue (objs l ! c)) = x # xs" "pkt_value (bufs l) x = (d, o', e)"
    "map (pkt_value (bufs l)) xs = rest"
    using s by (auto simp: stream_def)
  obtain q where q: "rq_Pop (lib_rq L) now (c_queue (objs l ! c)) = PopItem x q" "ct q = xs"
    "\<not> cl q" "cp q = receiveBacklog"
    using rq.Pop_after [OF xs(1) c(4) time] c(5) by auto
  have "full_pkt x"
    using buf_invD(3) [OF buf nth_mem [OF c(1)], of x] xs(1) by simp
  then obtain a b where ab: "pkt_data x = Some a" "pkt_oob x = Some b"
    by (auto simp: full_pkt_def)
  let ?l' = "putOob L b (putData L a (set_queue c q l))"
  have "bufs (set_queue c q l) ! a = d" "bufs (set_queue c q l) ! b = o'" "pkt_ecn x = e"
    using xs(2) ab by (auto simp: pkt_value_def set_queue_def)
  then have "Conn_Read L now c p oob l =
      Ret (ReadRet (min (length p) (length d)) (min (length oob) (length o')) e None
             (snd (go_copy p d)) (snd (go_copy oob o')), ?l')"
    by (simp add: Conn_Read_def q(1) read_copy_def ab case_prod_beta go_copy_count)
  then show ?thesis
    using take_packet [OF inv buf k xs(1) ab q(2-4) refl] by (auto simp: xs(3))
qed

end

end
