(* ===== verification/Demux.thy ===== *)
theory Demux
  imports Dispatch
begin

text \<open>
  What the refinement of \<open>Dispatch\<close> gives for whole runs: the read loop over any sequence of datagrams
  computes what the abstract multiplexer computes, the connections then hand out the datagrams of their
  remotes in order, and nothing grows beyond the two backlogs.
\<close>

section \<open>What a run of the specification computes\<close>

text \<open>
  With room for every remote and a filter that passes every packet, the stream of a remote is the
  sequence of its packets, cut at \<open>receiveBacklog\<close>.
\<close>

lemma mux_run:
  assumes "\<forall>x \<in> set kps. case filt of None \<Rightarrow> True | Some f \<Rightarrow> f (fst (snd x))"
    and "card (fst ` set kps) \<le> room"
  shows "mx_accepting (fold (mux_dispatch filt room) kps mux_init)
    \<and> distinct (mx_waiting (fold (mux_dispatch filt room) kps mux_init))
    \<and> set (mx_waiting (fold (mux_dispatch filt room) kps mux_init)) = fst ` set kps
    \<and> mx_stream (fold (mux_dispatch filt room) kps mux_init) k =
        (if k \<in> fst ` set kps then Some (take receiveBacklog (map snd (filter (\<lambda>x. fst x = k) kps))) else None)"
  using assms
proof (induction kps arbitrary: k rule: rev_induct)
  case Nil
  then show ?case by (simp add: mux_init_def)
next
  case (snoc x kps)
  obtain k0 d oob e where x: "x = (k0, d, oob, e)" by (cases x) auto
  define m where "m = fold (mux_dispatch filt room) kps mux_init"
  have card: "card (fst ` set kps) \<le> room"
    using snoc.prems(2) card_mono [of "fst ` set (kps @ [x])" "fst ` set kps"] by fastforce
  have IH: "mx_accepting m" "distinct (mx_waiting m)" "set (mx_waiting m) = fst ` set kps"
    "mx_stream m k' = (if k' \<in> fst ` set kps
       then Some (take receiveBacklog (map snd (filter (\<lambda>x. fst x = k') kps))) else None)" for k'
    using snoc.IH [of k'] snoc.prems(1) card by (simp_all add: m_def)
  have step: "fold (mux_dispatch filt room) (kps @ [x]) mux_init = mux_dispatch filt room (k0, d, oob, e) m"
    by (simp add: m_def x)
  show ?case
  proof (cases "k0 \<in> fst ` set kps")
    case True
    then show ?thesis
      unfolding step using IH by (auto simp: mux_dispatch_def x insert_absorb min_def)
  next
    case False
    then have none: "filter (\<lambda>x. fst x = k0) kps = []"
      by (auto simp: filter_empty_conv)
    have "length (mx_waiting m) = card (fst ` set kps)"
      using IH(2,3) distinct_card by force
    moreover have "card (fst ` set (kps @ [x])) = Suc (card (fst ` set kps))"
      using False by (simp add: x)
    ultimately have "length (mx_waiting m) < room"
      using snoc.prems(2) by linarith
    moreover have "case filt of None \<Rightarrow> True | Some f \<Rightarrow> f d"
      using snoc.prems(1) by (auto simp: x split: option.splits)
    ultimately show ?thesis
      unfolding step using IH False none by (auto simp: mux_dispatch_def x receiveBacklog_def)
  qed
qed

lemma wrapConn_inv:
  "conn_inv cp cl (wrapConn L caps la ra lis filt backlog)"
  "buf_inv ct (wrapConn L caps la ra lis filt backlog) []"
  "abs_mux ct (wrapConn L caps la ra lis filt backlog) = mux_init"
  by (auto simp: conn_inv_def buf_inv_def refs_def abs_mux_def mux_init_def wrapConn_def)

interpretation ref: udp_lib ref_lib bq_items bq_cap bq_closed bq_in_time
  unfolding udp_lib_def
  using bounded.ring_queue_axioms plain.deadline_timer_axioms ffit.buffer_pool_axioms
  by (simp add: ref_lib_def)

section \<open>Reading a stream to its end\<close>

text \<open>
  A reader that calls \<open>Read\<close> \<open>n\<close> times with fresh slices of the sizes of the receive buffers, and
  collects what it was given.
\<close>

fun read_many ::
    "('q, 'd) lib \<Rightarrow> int \<Rightarrow> nat \<Rightarrow> nat \<Rightarrow> ('q, 'd) supConn \<Rightarrow> (packet list \<times> ('q, 'd) supConn) go" where
  "read_many L now c 0 l = Ret ([], l)"
| "read_many L now c (Suc n) l =
     go_bind (Conn_Read L now c (replicate receiveMTU 0) (replicate oobSize 0) l) (\<lambda>(r, l).
       case r of
         ReadBlocks \<Rightarrow> Ret ([], l)
       | ReadRet m oobM e er p oob \<Rightarrow>
           if er \<noteq> None then Ret ([], l)
           else go_bind (read_many L now c n l) (\<lambda>(ps, l). Ret ((take m p, take oobM oob, e) # ps, l)))"

text \<open>No read deadline was set on any queue.\<close>

definition timely :: "(int \<Rightarrow> 'q \<Rightarrow> bool) \<Rightarrow> ('q, 'd) supConn \<Rightarrow> bool" where
  "timely it l \<longleftrightarrow> (\<forall>c \<in> set (objs l). \<forall>now. it now (c_queue c))"

context udp_lib
begin

lemma timely_update:
  assumes "timely it l" and "i < length (objs l)" and "\<forall>now. it now q"
    and "objs l' = (objs l)[i := (objs l ! i)\<lparr>c_queue := q\<rparr>]"
  shows "timely it l'"
  using assms by (auto simp: timely_def dest!: subsetD [OF set_update_subset_insert])

lemma pushPacket_timely:
  assumes "timely it l" and i: "i < length (objs l)"
  shows "timely it (pushPacket L i p l)"
proof -
  obtain e q where push: "rq_Push (lib_rq L) p (c_queue (objs l ! i)) = (e, q)"
    by fastforce
  have "\<forall>now. it now q"
    using rq.Push_frame [OF push] assms nth_mem [OF i] by (auto simp: timely_def)
  then show ?thesis
    by (rule timely_update [OF assms]) (simp add: pushPacket_def push Let_def)
qed

lemma dispatchMsg_timely:
  assumes "timely it l" and "conn_inv cp cl l" and "dispatchMsg L a b ob e l = Ret l'"
  shows "timely it l'"
proof -
  obtain r l1 where get: "getSubConn L a (bufs l ! b) True l = Ret (r, l1)"
    using assms(3) by (auto simp: dispatchMsg_def go_bind_Ret_iff)
  obtain conn where conn: "newSubConn L l a = Ret conn" "\<forall>now. it now (c_queue conn)"
    using newSubConn_ok [of l a] by blast
  have l1: "timely it l1 \<and> (\<forall>c. fst r = Some c \<longrightarrow> c < length (objs l1))"
    using get conn assms(1) conn_inv_lookup(1) [OF assms(2)]
    by (auto simp: getSubConn_def timely_def Let_def split: option.splits if_splits)
  then show ?thesis
    using assms(3) pushPacket_timely
    by (cases r) (auto simp: dispatchMsg_def get split: option.splits)
qed

lemma readLoop_iter_timely:
  assumes "timely it l" and "conn_inv cp cl l" and "buf_inv ct l hand"
    and "readLoop_iter L rd l = Ret (go_on, l')"
  shows "timely it l'"
proof -
  obtain b ob l1 where get: "readLoop_buffers L l = (b, ob, l1)"
    by (cases "readLoop_buffers L l") auto
  obtain bp op bs where l1: "l1 = l\<lparr>bufPool := bp, oobPool := op, bufs := bs\<rparr>"
    using readLoop_buffers_ok(4) [OF get assms(3)] by blast
  have ok: "timely it (l1\<lparr>bufs := x\<rparr>)" "conn_inv cp cl (l1\<lparr>bufs := x\<rparr>)" for x
    using assms(1,2) by (simp_all add: l1 timely_def conn_inv_def conn_key_def)
  show ?thesis
    using assms(4) ok dispatchMsg_timely [OF ok]
    by (auto simp: readLoop_iter_def readLoop_deliver_def get Let_def go_bind_Ret_iff timely_def split: option.splits)
qed

lemma Conn_Read_timely:
  assumes "timely it l" and i: "i < length (objs l)" and "Conn_Read L now i p oob l = Ret (r, l')"
  shows "timely it l'"
proof -
  have upd: "timely it (set_queue i q l)" if "\<And>later. it later q = it later (c_queue (objs l ! i))" for q
    by (rule timely_update [OF assms(1) i]) (use that assms(1) nth_mem [OF i] in \<open>auto simp: timely_def set_queue_def\<close>)
  have put: "timely it (putOob L b (putData L a m)) = timely it m" for a b and m :: "('q, 'd) supConn"
    by (simp add: timely_def putOob_def putData_def)
  show ?thesis
  proof (cases "rq_Pop (lib_rq L) now (c_queue (objs l ! i))")
    case PopBlocks
    then show ?thesis using assms by (simp add: Conn_Read_def)
  next
    case (PopItem x q)
    with rq.Pop_item [OF PopItem] have "timely it (set_queue i q l)" by (intro upd) blast
    then show ?thesis using assms(3) PopItem
      by (auto simp: Conn_Read_def read_copy_def put split: option.splits prod.splits)
  next
    case (PopErr e q)
    with rq.Pop_err [OF PopErr] have "timely it (set_queue i q l)" by (intro upd) blast
    then show ?thesis using assms(3) PopErr by (auto simp: Conn_Read_def Let_def)
  qed
qed

lemma read_many_stream:
  assumes "conn_inv cp cl l" and "buf_inv ct l hand" and "timely it l" and "map_of (conns l) k = Some c"
    and "stream ct l c = ps @ rest"
    and "\<forall>(d, oob, e) \<in> set ps. length d \<le> receiveMTU \<and> length oob \<le> oobSize"
  shows "\<exists>l'. read_many L now c (length ps) l = Ret (ps, l') \<and> conn_inv cp cl l' \<and> buf_inv ct l' hand
    \<and> stream ct l' c = rest"
  using assms
proof (induction ps arbitrary: l)
  case Nil
  then show ?case by auto
next
  case (Cons x ps)
  obtain d oob e where x: "x = (d, oob, e)" by (cases x) auto
  note c = conn_inv_lookup [OF Cons.prems(1,4)]
  have len: "length d \<le> receiveMTU" "length oob \<le> oobSize"
    using Cons.prems(6) x by auto
  have time: "it now (c_queue (objs l ! c))"
    using Cons.prems(3) nth_mem [OF c(1)] by (simp add: timely_def)
  have str: "stream ct l c = (d, oob, e) # ps @ rest"
    using Cons.prems(5) x by simp
  let ?p = "replicate receiveMTU (0::byte)" and ?q = "replicate oobSize (0::byte)"
  obtain l1 where l1: "Conn_Read L now c ?p ?q l =
      Ret (ReadRet (min (length ?p) (length d)) (min (length ?q) (length oob)) e None
             (snd (go_copy ?p d)) (snd (go_copy ?q oob)), l1)"
    "conn_inv cp cl l1" "buf_inv ct l1 hand"
    "abs_mux ct l1 = (abs_mux ct l)\<lparr>mx_stream := (mx_stream (abs_mux ct l))(k \<mapsto> ps @ rest)\<rparr>"
    using Conn_Read_refines [OF Cons.prems(1,2,4) str time, of ?p ?q] by blast
  have "conns l1 = conns l"
    using l1(1) by (auto simp: Conn_Read_def read_copy_def set_queue_def putOob_def putData_def Let_def
        split: pop_result.splits option.splits prod.splits)
  then have k: "map_of (conns l1) k = Some c"
    using Cons.prems(4) by simp
  have s1: "stream ct l1 c = ps @ rest"
    using l1(4) k by (auto simp: abs_mux_def dest!: fun_cong [where x = k])
  have t1: "timely it l1"
    using Conn_Read_timely [OF Cons.prems(3) c(1) l1(1)] .
  obtain l' where "read_many L now c (length ps) l1 = Ret (ps, l')" "conn_inv cp cl l'" "buf_inv ct l' hand"
    "stream ct l' c = rest"
    using Cons.IH [OF l1(2,3) t1 k s1] Cons.prems(6) by auto
  then show ?case
    using l1(1) len go_copy_prefix [of ?p d] go_copy_prefix [of ?q oob] x
    by (auto simp: go_copy_count min_def)
qed

lemma readLoop_timely:
  assumes "list_all2 (\<lambda>rd (a, pkt). delivers rd a pkt) rds dgrams"
    and "timely it l" and "conn_inv cp cl l" and "buf_inv ct l hand" and "isListener l"
    and "readLoop L rds l = Ret (go_on, l')"
  shows "timely it l'"
  using assms
proof (induction rds dgrams arbitrary: l rule: list_all2_induct)
  case Nil
  then show ?case by simp
next
  case (Cons rd rds x dgrams)
  obtain a pkt where "x = (a, pkt)" by (cases x) auto
  then obtain l1 where l1: "readLoop_iter L rd l = Ret (True, l1)" "conn_inv cp cl l1" "buf_inv ct l1 hand" "isListener l1"
    using readLoop_iter_refines [of l hand rd a pkt] Cons.hyps(1) Cons.prems by auto
  show ?case
    using Cons.IH [OF readLoop_iter_timely [OF Cons.prems(1-3) l1(1)] l1(2-4)] Cons.prems(5) l1(1) by simp
qed

text \<open>The read loop from the start, and the connection of one remote.\<close>

lemma demux_run:
  fixes caps la ra filt backlog
  defines "l0 \<equiv> wrapConn L caps la ra True filt backlog"
  assumes rds: "list_all2 (\<lambda>rd (a, pkt). delivers rd a pkt) rds dgrams"
    and pass: "\<forall>(a, d, oob, e) \<in> set dgrams. case filt of None \<Rightarrow> True | Some f \<Rightarrow> f d"
    and room: "card (addr_String ` fst ` set dgrams) \<le> backlog"
    and a: "a \<in> fst ` set dgrams"
  obtains l' c where "readLoop L rds l0 = Ret (True, l')" "conn_inv cp cl l'" "buf_inv ct l' []" "timely it l'"
    "map_of (conns l') (addr_String a) = Some c"
    "stream ct l' c = take receiveBacklog (map snd (filter (\<lambda>x. addr_String (fst x) = addr_String a) dgrams))"
    "c \<in> set (acceptCh l')"
proof -
  let ?kps = "map (\<lambda>(a, pkt). (addr_String a, pkt)) dgrams"
  have inv0: "conn_inv cp cl l0" "buf_inv ct l0 []" "abs_mux ct l0 = mux_init"
    unfolding l0_def by (rule wrapConn_inv)+
  have f0: "isListener l0" "acceptFilter l0 = filt" "acceptCap l0 + parked l0 = backlog" "timely it l0"
    by (simp_all add: l0_def wrapConn_def timely_def)
  obtain l' where l': "readLoop L rds l0 = Ret (True, l')" "conn_inv cp cl l'" "buf_inv ct l' []"
    "abs_mux ct l' = fold (mux_dispatch filt backlog) ?kps mux_init"
    using readLoop_refines [OF rds inv0(1,2) f0(1)] f0 inv0(3) by auto
  have keys: "fst ` set ?kps = addr_String ` fst ` set dgrams"
    by force
  have filt: "map snd (filter (\<lambda>x. fst x = k) ?kps) = map snd (filter (\<lambda>x. addr_String (fst x) = k) dgrams)" for k
    by (induction dgrams) auto
  have pass': "\<forall>x \<in> set ?kps. case filt of None \<Rightarrow> True | Some f \<Rightarrow> f (fst (snd x))"
    using pass by fastforce
  have room': "card (fst ` set ?kps) \<le> backlog"
    using room by (simp only: keys)
  have mem: "addr_String a \<in> fst ` set ?kps"
    using a keys by blast
  have run: "mx_stream (abs_mux ct l') (addr_String a) =
      Some (take receiveBacklog (map snd (filter (\<lambda>x. addr_String (fst x) = addr_String a) dgrams)))"
    "addr_String a \<in> set (mx_waiting (abs_mux ct l'))"
    unfolding l'(4) filt [symmetric] using mux_run [OF pass' room', of "addr_String a"] mem by presburger+
  then obtain c where c: "map_of (conns l') (addr_String a) = Some c"
    "stream ct l' c = take receiveBacklog (map snd (filter (\<lambda>x. addr_String (fst x) = addr_String a) dgrams))"
    by (auto simp: abs_mux_def)
  obtain c' where c': "c' \<in> set (acceptCh l')" "conn_key l' c' = addr_String a"
    using run(2) by (auto simp: abs_mux_def)
  obtain k' where k': "map_of (conns l') k' = Some c'"
    using conn_invD(1,4) [OF l'(2)] c'(1) by (force simp: image_iff)
  then have "c' = c"
    using conn_inv_lookup(3) [OF l'(2) k'] c'(2) c(1) by simp
  then show ?thesis
    using that l' c c'(1) readLoop_timely [OF rds f0(4) inv0(1,2) f0(1) l'(1)] by blast
qed

end

section \<open>Properties\<close>

lemma delivers_bounds:
  assumes "delivers rd a (d, oob, e)"
  shows "length d \<le> receiveMTU" and "length oob \<le> oobSize"
  using assms [unfolded delivers_def, rule_format, of "replicate receiveMTU 0" "replicate oobSize 0"]
  by (auto simp: Let_def nat_le_iff)

text \<open>
  A raw connection that answers with one datagram, used to instantiate the properties.
\<close>

definition datagram_read :: "net_addr \<Rightarrow> packet \<Rightarrow> byte list \<Rightarrow> byte list \<Rightarrow> raw_read" where
  "datagram_read a pkt b oob =
     (case pkt of (d, o', e) \<Rightarrow>
       \<lparr>rr_n = int (length d), rr_oobN = int (length o'), rr_ecn = e, rr_addr = Some a, rr_err = None,
        rr_b = snd (go_copy b d), rr_oob = snd (go_copy oob o')\<rparr>)"

lemma delivers_datagram:
  "length d \<le> receiveMTU \<Longrightarrow> length o' \<le> oobSize \<Longrightarrow> delivers (datagram_read a (d, o', e)) a (d, o', e)"
  by (auto simp: delivers_def datagram_read_def Let_def go_copy_def min_def)

lemma demux_delivers:
  assumes lib: "udp_lib L ct cp cl it"
    and rds: "list_all2 (\<lambda>rd (a, pkt). delivers rd a pkt) rds dgrams"
    and pass: "\<forall>(a, d, oob, e) \<in> set dgrams. case filt of None \<Rightarrow> True | Some f \<Rightarrow> f d"
    and room: "card (addr_String ` fst ` set dgrams) \<le> backlog"
    and a: "a \<in> fst ` set dgrams"
    and ps: "ps = take receiveBacklog (map snd (filter (\<lambda>x. addr_String (fst x) = addr_String a) dgrams))"
  shows "\<exists>l c l'. readLoop L rds (wrapConn L caps la ra True filt backlog) = Ret (True, l)
    \<and> map_of (conns l) (addr_String a) = Some c \<and> c \<in> set (acceptCh l)
    \<and> read_many L now c (length ps) l = Ret (ps, l') \<and> stream ct l' c = []"
proof -
  obtain l c where l: "readLoop L rds (wrapConn L caps la ra True filt backlog) = Ret (True, l)"
    "conn_inv cp cl l" "buf_inv ct l []" "timely it l" "map_of (conns l) (addr_String a) = Some c"
    "stream ct l c = ps" "c \<in> set (acceptCh l)"
    using udp_lib.demux_run [OF lib rds pass room a] ps by metis
  have "\<forall>x \<in> set dgrams. length (fst (snd x)) \<le> receiveMTU \<and> length (fst (snd (snd x))) \<le> oobSize"
    using rds delivers_bounds by (fastforce simp: list_all2_conv_all_nth in_set_conv_nth)
  then have "\<forall>(d, oob, e) \<in> set ps. length d \<le> receiveMTU \<and> length oob \<le> oobSize"
    using ps by (fastforce dest: in_set_takeD)
  then show ?thesis
    using udp_lib.read_many_stream [OF lib l(2-5), of ps "[]"] l by fastforce
qed

text \<open>
  C1: Demultiplexing, end to end.  For any queue, deadline and pool that keep their contracts, a
  listener whose raw connection delivers a sequence of datagrams from any number of remotes (not
  more than the backlog, all passing the filter) registers a connection for every remote and
  queues it for \<open>Accept\<close>; reading that connection returns exactly the datagrams of that remote, each
  whole, in the order of arrival, up to the receive backlog.
\<close>

theorem demux_end_to_end:
  assumes lib: "udp_lib L ct cp cl it"
    and rds: "list_all2 (\<lambda>rd (a, pkt). delivers rd a pkt) rds dgrams"
    and pass: "\<forall>(a, d, oob, e) \<in> set dgrams. case filt of None \<Rightarrow> True | Some f \<Rightarrow> f d"
    and room: "card (addr_String ` fst ` set dgrams) \<le> backlog"
    and a: "a \<in> fst ` set dgrams"
    and ps: "ps = take receiveBacklog (map snd (filter (\<lambda>x. addr_String (fst x) = addr_String a) dgrams))"
  shows "\<exists>l c l'. readLoop L rds (wrapConn L caps la ra True filt backlog) = Ret (True, l)
    \<and> map_of (conns l) (addr_String a) = Some c \<and> c \<in> set (acceptCh l)
    \<and> read_many L now c (length ps) l = Ret (ps, l') \<and> stream ct l' c = []"
  using assms by (rule demux_delivers)

theorem demux_end_to_end_witness:
  "\<exists>l c l'. readLoop ref_lib
        (map (\<lambda>(k, b). datagram_read \<lparr>addr_String = k, addr_UDP = None\<rparr> ([b], [], ECNNon))
          [(''a'', 1), (''b'', 2), (''a'', 3)])
        (wrapConn ref_lib 0 None None True None 2) = Ret (True, l)
    \<and> map_of (conns l) ''a'' = Some c \<and> c \<in> set (acceptCh l)
    \<and> read_many ref_lib 0 c 2 l = Ret ([([1], [], ECNNon), ([3], [], ECNNon)], l') \<and> stream bq_items l' c = []"
proof -
  let ?a = "\<lambda>k. \<lparr>addr_String = k, addr_UDP = None\<rparr>"
  let ?dgrams = "[(?a ''a'', [1], [], ECNNon), (?a ''b'', [2], [], ECNNon), (?a ''a'', [3], [], ECNNon)]"
  let ?rds = "map (\<lambda>(k, b). datagram_read (?a k) ([b], [], ECNNon)) [(''a'', 1), (''b'', 2), (''a'', 3)]"
  have rds: "list_all2 (\<lambda>rd (a, pkt). delivers rd a pkt) ?rds ?dgrams"
    by (simp add: delivers_datagram receiveMTU_def)
  have pass: "\<forall>(a, d, oob, e) \<in> set ?dgrams. case None of None \<Rightarrow> True | Some f \<Rightarrow> f d"
    by simp
  have room: "card (addr_String ` fst ` set ?dgrams) \<le> 2"
    by (simp add: card_insert_if)
  have a: "?a ''a'' \<in> fst ` set ?dgrams"
    by simp
  have ps: "[([1], [], ECNNon), ([3], [], ECNNon)] =
      take receiveBacklog (map snd (filter (\<lambda>x. addr_String (fst x) = addr_String (?a ''a'')) ?dgrams))"
    by (simp add: receiveBacklog_def)
  show ?thesis
    using demux_end_to_end [OF ref.udp_lib_axioms rds pass room a ps, of 0 None None 0]
    by (simp only: list.size numeral_2_eq_2 net_addr.simps add_Suc_right add_0_right)
qed

text \<open>
  C4: The read loop implements the abstract multiplexer.  From any listener in order, and for any
  datagrams its raw connection delivers, the loop runs on, the listener stays in order, and its
  abstraction is the one the multiplexer computes from the same datagrams: known remotes, new remotes,
  filtered packets, full queues and a full backlog alike.
\<close>

theorem read_loop_refines_mux:
  assumes "udp_lib L ct cp cl it" and "list_all2 (\<lambda>rd (a, pkt). delivers rd a pkt) rds dgrams"
    and "conn_inv cp cl l" and "buf_inv ct l hand" and "isListener l"
  shows "\<exists>l'. readLoop L rds l = Ret (True, l') \<and> conn_inv cp cl l' \<and> buf_inv ct l' hand
    \<and> abs_mux ct l' = fold (mux_dispatch (acceptFilter l) (acceptCap l + parked l))
        (map (\<lambda>(a, pkt). (addr_String a, pkt)) dgrams) (abs_mux ct l)"
  using udp_lib.readLoop_refines [OF assms] by blast

theorem read_loop_refines_mux_witness:
  "\<exists>l'. readLoop ref_lib (replicate 3 (datagram_read \<lparr>addr_String = ''a'', addr_UDP = None\<rparr> ([1], [], ECNNon)))
        (wrapConn ref_lib 0 None None True (Some (\<lambda>d. d = [])) 2) = Ret (True, l')
    \<and> mx_stream (abs_mux bq_items l') ''a'' = None"
proof -
  let ?l = "wrapConn ref_lib 0 None None True (Some (\<lambda>d. d = [])) 2"
  have rds: "list_all2 (\<lambda>rd (a, pkt). delivers rd a pkt)
      (replicate 3 (datagram_read \<lparr>addr_String = ''a'', addr_UDP = None\<rparr> ([1], [], ECNNon)))
      (replicate 3 (\<lparr>addr_String = ''a'', addr_UDP = None\<rparr>, [1], [], ECNNon))"
    by (simp add: numeral_3_eq_3 delivers_datagram receiveMTU_def)
  have "isListener ?l"
    by (simp add: wrapConn_def)
  from read_loop_refines_mux [OF ref.udp_lib_axioms rds wrapConn_inv(1,2) this]
  obtain l' where "readLoop ref_lib (replicate 3 (datagram_read \<lparr>addr_String = ''a'', addr_UDP = None\<rparr> ([1], [], ECNNon))) ?l = Ret (True, l')"
    "abs_mux bq_items l' = fold (mux_dispatch (acceptFilter ?l) (acceptCap ?l + parked ?l))
        (map (\<lambda>(a, pkt). (addr_String a, pkt)) (replicate 3 (\<lparr>addr_String = ''a'', addr_UDP = None\<rparr>, [1], [], ECNNon))) (abs_mux bq_items ?l)"
    by blast
  then show ?thesis
    unfolding wrapConn_inv(3) by (simp add: numeral_3_eq_3 mux_dispatch_def mux_init_def wrapConn_def)
qed

lemma mux_bounds:
  assumes "length (mx_waiting m) \<le> room" and "\<forall>k ps. mx_stream m k = Some ps \<longrightarrow> length ps \<le> receiveBacklog"
  shows "length (mx_waiting (fold (mux_dispatch filt room) kps m)) \<le> room
    \<and> (\<forall>k ps. mx_stream (fold (mux_dispatch filt room) kps m) k = Some ps \<longrightarrow> length ps \<le> receiveBacklog)"
  using assms
proof (induction kps arbitrary: m)
  case Nil
  then show ?case by simp
next
  case (Cons kp kps)
  have "length (mx_waiting (mux_dispatch filt room kp m)) \<le> room"
    using Cons.prems(1) by (auto simp: mux_dispatch_def split: prod.splits option.splits)
  moreover have "\<forall>k ps. mx_stream (mux_dispatch filt room kp m) k = Some ps \<longrightarrow> length ps \<le> receiveBacklog"
    using Cons.prems(2) by (auto simp: mux_dispatch_def receiveBacklog_def split: prod.splits option.splits if_splits)
  ultimately show ?case
    using Cons.IH by simp
qed

text \<open>
  C11: Whatever the remotes send, a listener queues no more connections than its backlog and no more
  packets per connection than \<open>receiveBacklog\<close>; what does not fit is dropped.
\<close>

theorem demux_bounds:
  assumes "udp_lib L ct cp cl it" and "list_all2 (\<lambda>rd (a, pkt). delivers rd a pkt) rds dgrams"
  shows "\<exists>l. readLoop L rds (wrapConn L caps la ra True filt backlog) = Ret (True, l)
    \<and> length (acceptCh l) \<le> backlog
    \<and> (\<forall>k c. map_of (conns l) k = Some c \<longrightarrow> length (ct (c_queue (objs l ! c))) \<le> receiveBacklog)"
proof -
  let ?l = "wrapConn L caps la ra True filt backlog"
  have f: "isListener ?l" "acceptFilter ?l = filt" "acceptCap ?l + parked ?l = backlog"
    by (simp_all add: wrapConn_def)
  obtain l where l: "readLoop L rds ?l = Ret (True, l)"
    "abs_mux ct l = fold (mux_dispatch filt backlog) (map (\<lambda>(a, pkt). (addr_String a, pkt)) dgrams) mux_init"
    using udp_lib.readLoop_refines [OF assms(1,2) wrapConn_inv(1,2) f(1)] f(2,3) wrapConn_inv(3) by metis
  have "length (mx_waiting (abs_mux ct l)) \<le> backlog
      \<and> (\<forall>k ps. mx_stream (abs_mux ct l) k = Some ps \<longrightarrow> length ps \<le> receiveBacklog)"
    unfolding l(2) by (rule mux_bounds) (simp_all add: mux_init_def)
  note b = this
  have "length (acceptCh l) \<le> backlog"
    using b by (simp add: abs_mux_def)
  moreover have "length (stream ct l c) \<le> receiveBacklog" if "map_of (conns l) k = Some c" for k c
    using b that by (auto simp: abs_mux_def)
  ultimately show ?thesis
    using l(1) by (auto simp: stream_def)
qed

theorem demux_bounds_witness:
  "\<exists>l. readLoop ref_lib
        (map (\<lambda>k. datagram_read \<lparr>addr_String = k, addr_UDP = None\<rparr> ([1], [], ECNNon)) [''a'', ''b'', ''c''])
        (wrapConn ref_lib 0 None None True None 2) = Ret (True, l) \<and> length (acceptCh l) \<le> 2"
proof -
  have "list_all2 (\<lambda>rd (a, pkt). delivers rd a pkt)
      (map (\<lambda>k. datagram_read \<lparr>addr_String = k, addr_UDP = None\<rparr> ([1], [], ECNNon)) [''a'', ''b'', ''c''])
      (map (\<lambda>k. (\<lparr>addr_String = k, addr_UDP = None\<rparr>, [1], [], ECNNon)) [''a'', ''b'', ''c''])"
    by (simp add: delivers_datagram receiveMTU_def)
  from demux_bounds [OF ref.udp_lib_axioms this, of 0 None None None 2] show ?thesis
    by blast
qed

end
