(* ===== verification/Sup_Machine.thy ===== *)
theory Sup_Machine
  imports Demux
begin

text \<open>
  The super connection as a concurrent system.  The goroutines are the read loop, the goroutine
  that closes the raw connection, any number of callers of \<open>Accept\<close>, one caller of
  \<open>supConn.Close\<close> (the others wait in \<open>doneOnce\<close> until it is through and return nil), and for every accepted connection its readers and
  one caller of \<open>Conn.Close\<close>.  A step is one atomic segment of one of them, so that every
  interleaving of the segments is a run.  The lock is held across several steps only while
  \<open>Close\<close> drains the accept channel; the steps of the others that need the lock are disabled then.
\<close>

section \<open>The system\<close>

text \<open>How far each goroutine has got.\<close>

datatype close_pc = CIdle | CStopped | CDraining | CDrained nat | CDecr nat | CDone "err option"

datatype conn_pc = KOpen | KDecr | KSignalled | KDeleted nat | KWaited "err option" | KClosed "err option"

datatype read_pc = RIdle | RBufs nat nat | RGot nat receivedPacket | RErr | RSignalled | RDone

text \<open>
  \<open>m_pending\<close> are the connections that a caller of \<open>Accept\<close> has received but not yet counted,
  \<open>m_user\<close> those that \<open>Accept\<close> has returned; \<open>m_hands\<close> are the packets that a call of \<open>Read\<close> has
  popped and not yet copied out; \<open>m_pclosed\<close> says that the raw connection was closed.
\<close>

record ('q, 'd) sys =
  m_sup :: "('q, 'd) supConn"
  m_close :: close_pc
  m_pending :: "nat list"
  m_user :: "nat list"
  m_kpc :: "nat \<Rightarrow> conn_pc"
  m_reader :: read_pc
  m_hands :: "receivedPacket list"
  m_pclosed :: bool

definition sys_init ::
    "('q, 'd) lib \<Rightarrow> ConnCapabilities \<Rightarrow> net_addr option \<Rightarrow> net_addr option \<Rightarrow>
     (byte list \<Rightarrow> bool) option \<Rightarrow> nat \<Rightarrow> ('q, 'd) sys" where
  "sys_init L caps la ra filt backlog =
     \<lparr>m_sup = wrapConn L caps la ra True filt backlog, m_close = CIdle, m_pending = [], m_user = [],
      m_kpc = (\<lambda>_. KOpen), m_reader = RIdle, m_hands = [], m_pclosed = False\<rparr>"

text \<open>
  What the read loop stores in its two buffers when the raw connection returns a packet: the two
  slices, cut to the returned counts.
\<close>

definition received :: "raw_read \<Rightarrow> nat \<Rightarrow> nat \<Rightarrow> ('q, 'd) supConn \<Rightarrow> ('q, 'd) supConn go" where
  "received r b ob l =
     (let l = l\<lparr>bufs := (bufs l)[b := rr_b r, ob := rr_oob r]\<rparr> in
      go_bind (slice_to (bufs l ! b) (rr_n r)) (\<lambda>d.
      go_bind (slice_to (bufs l ! ob) (rr_oobN r)) (\<lambda>oob.
        Ret (l\<lparr>bufs := (bufs l)[b := d, ob := oob]\<rparr>))))"

inductive step :: "('q, 'd) lib \<Rightarrow> ('q, 'd) sys \<Rightarrow> ('q, 'd) sys \<Rightarrow> bool" for L where
  \<comment> \<open>the read loop\<close>
  read_get: "m_reader s = RIdle \<Longrightarrow> readLoop_buffers L (m_sup s) = (b, ob, l) \<Longrightarrow>
     step L s (s\<lparr>m_sup := l, m_reader := RBufs b ob\<rparr>)"
| read_packet: "m_reader s = RBufs b ob \<Longrightarrow> m_close s \<noteq> CDraining \<Longrightarrow> rr_err (r :: raw_read) = None \<Longrightarrow>
     rr_addr r = Some a \<Longrightarrow> received r b ob (m_sup s) = Ret l \<Longrightarrow>
     getSubConn L (rr_addr r) (bufs l ! b) True l = Ret ((co, isNew, er), l') \<Longrightarrow>
     step L s (s\<lparr>m_sup := l', m_reader := (case co of None \<Rightarrow> RIdle
       | Some c \<Rightarrow> RGot c \<lparr>pkt_data = Some b, pkt_oob = Some ob, pkt_ecn = rr_ecn r\<rparr>)\<rparr>)"
| read_push: "m_reader s = RGot c pkt \<Longrightarrow>
     step L s (s\<lparr>m_sup := pushPacket L c pkt (m_sup s), m_reader := RIdle\<rparr>)"
| read_error: "m_reader s = RBufs b ob \<Longrightarrow> rr_err (r :: raw_read) = Some e \<Longrightarrow>
     step L s (s\<lparr>m_sup := (m_sup s)\<lparr>errRead := Some e,
       bufs := (bufs (m_sup s))[b := rr_b r, ob := rr_oob r]\<rparr>, m_reader := RErr\<rparr>)"
| read_signal: "m_reader s = RErr \<Longrightarrow> chan_close (readDoneCh (m_sup s)) = Ret ch \<Longrightarrow>
     step L s (s\<lparr>m_sup := (m_sup s)\<lparr>readDoneCh := ch\<rparr>, m_reader := RSignalled\<rparr>)"
| read_done: "m_reader s = RSignalled \<Longrightarrow> wg_done (readWG (m_sup s)) = Ret wg \<Longrightarrow>
     step L s (s\<lparr>m_sup := (m_sup s)\<lparr>readWG := wg\<rparr>, m_reader := RDone\<rparr>)"
  \<comment> \<open>callers of Accept\<close>
| acc_park: "(\<forall>k. \<not> accept_ready L now (m_sup s) k) \<Longrightarrow>
     step L s (s\<lparr>m_sup := (m_sup s)\<lparr>parked := Suc (parked (m_sup s))\<rparr>\<rparr>)"
| acc_leave: "0 < parked (m_sup s) \<Longrightarrow>
     length (acceptCh (m_sup s)) < acceptCap (m_sup s) + parked (m_sup s) \<Longrightarrow>
     k \<noteq> CaseConn \<Longrightarrow> accept_ready L now (m_sup s) k \<Longrightarrow>
     step L s (s\<lparr>m_sup := (m_sup s)\<lparr>parked := parked (m_sup s) - 1\<rparr>\<rparr>)"
| acc_wake: "0 < parked (m_sup s) \<Longrightarrow> accept_recv (m_sup s) = Some (c, l) \<Longrightarrow>
     step L s (s\<lparr>m_sup := l\<lparr>parked := parked l - 1\<rparr>, m_pending := c # m_pending s\<rparr>)"
| acc_recv: "accept_recv (m_sup s) = Some (c, l) \<Longrightarrow>
     step L s (s\<lparr>m_sup := l, m_pending := c # m_pending s\<rparr>)"
| acc_add: "c \<in> set (m_pending s) \<Longrightarrow> accept_add (m_sup s) = Ret l \<Longrightarrow>
     step L s (s\<lparr>m_sup := l, m_pending := remove1 c (m_pending s), m_user := c # m_user s\<rparr>)"
  \<comment> \<open>the caller of supConn.Close\<close>
| cl_stop: "m_close s = CIdle \<Longrightarrow>
     step L s (s\<lparr>m_sup := close_stop (m_sup s), m_close := CStopped\<rparr>)"
| cl_signal: "m_close s = CStopped \<Longrightarrow> close_signal (m_sup s) = Ret l \<Longrightarrow>
     step L s (s\<lparr>m_sup := l, m_close := CDraining\<rparr>)"
| cl_drain: "m_close s = CDraining \<Longrightarrow> acceptCh (m_sup s) = c # cs \<Longrightarrow>
     lclose_one c ((m_sup s)\<lparr>acceptCh := cs\<rparr>) = Ret l \<Longrightarrow>
     step L s (s\<lparr>m_sup := l\<rparr>)"
| cl_drained: "m_close s = CDraining \<Longrightarrow> acceptCh (m_sup s) = [] \<Longrightarrow>
     step L s (s\<lparr>m_close := CDrained (length (conns (m_sup s)))\<rparr>)"
| cl_done: "m_close s = CDrained n \<Longrightarrow> close_done (m_sup s) = Ret l \<Longrightarrow>
     step L s (s\<lparr>m_sup := l, m_close := CDecr n\<rparr>)"
| cl_ret: "m_close s = CDecr n \<Longrightarrow> close_finish n (m_sup s) = CloseRet e \<Longrightarrow>
     step L s (s\<lparr>m_close := CDone e\<rparr>)"
  \<comment> \<open>the goroutine that closes the raw connection\<close>
| closer: "\<not> m_pclosed s \<Longrightarrow> closer_goroutine e (m_sup s) = Ret (Some l) \<Longrightarrow>
     step L s (s\<lparr>m_sup := l, m_pclosed := True\<rparr>)"
  \<comment> \<open>the caller of Conn.Close\<close>
| k_decr: "c \<in> set (m_user s) \<Longrightarrow> m_kpc s c = KOpen \<Longrightarrow> conn_decr c (m_sup s) = Ret l \<Longrightarrow>
     step L s (s\<lparr>m_sup := l, m_kpc := (m_kpc s)(c := KDecr)\<rparr>)"
| k_signal: "c \<in> set (m_user s) \<Longrightarrow> m_kpc s c = KDecr \<Longrightarrow> conn_signal c (m_sup s) = Ret l \<Longrightarrow>
     step L s (s\<lparr>m_sup := l, m_kpc := (m_kpc s)(c := KSignalled)\<rparr>)"
| k_delete: "c \<in> set (m_user s) \<Longrightarrow> m_kpc s c = KSignalled \<Longrightarrow> m_close s \<noteq> CDraining \<Longrightarrow>
     conn_delete c (m_sup s) = Ret (n, l) \<Longrightarrow>
     step L s (s\<lparr>m_sup := l, m_kpc := (m_kpc s)(c := KDeleted n)\<rparr>)"
| k_wait: "c \<in> set (m_user s) \<Longrightarrow> m_kpc s c = KDeleted n \<Longrightarrow> conn_wait n (m_sup s) = CloseRet e \<Longrightarrow>
     step L s (s\<lparr>m_kpc := (m_kpc s)(c := KWaited e)\<rparr>)"
| k_queue: "c \<in> set (m_user s) \<Longrightarrow> m_kpc s c = KWaited e \<Longrightarrow>
     conn_queue_close L c e (m_sup s) = (e', l) \<Longrightarrow>
     step L s (s\<lparr>m_sup := l, m_kpc := (m_kpc s)(c := KClosed e')\<rparr>)"
  \<comment> \<open>readers of a connection, and its deadlines\<close>
| u_pop: "c \<in> set (m_user s) \<Longrightarrow> rq_Pop (lib_rq L) now (c_queue (objs (m_sup s) ! c)) = PopItem pkt q \<Longrightarrow>
     step L s (s\<lparr>m_sup := set_queue c q (m_sup s), m_hands := pkt # m_hands s\<rparr>)"
| u_copy: "pkt \<in> set (m_hands s) \<Longrightarrow> read_copy L pkt p oob (m_sup s) = Ret (res, l) \<Longrightarrow>
     step L s (s\<lparr>m_sup := l, m_hands := remove1 pkt (m_hands s)\<rparr>)"
| u_error: "c \<in> set (m_user s) \<Longrightarrow> rq_Pop (lib_rq L) now (c_queue (objs (m_sup s) ! c)) = PopErr er q \<Longrightarrow>
     step L s (s\<lparr>m_sup := set_queue c q (m_sup s)\<rparr>)"
| u_deadline: "c \<in> set (m_user s) \<Longrightarrow> SetDeadline L c t (m_sup s) = (er, l) \<Longrightarrow>
     step L s (s\<lparr>m_sup := l\<rparr>)"
| u_accept_deadline: "supConn_SetDeadline L t (m_sup s) = (er, l) \<Longrightarrow>
     step L s (s\<lparr>m_sup := l\<rparr>)"

abbreviation steps :: "('q, 'd) lib \<Rightarrow> ('q, 'd) sys \<Rightarrow> ('q, 'd) sys \<Rightarrow> bool" where
  "steps L \<equiv> (step L)\<^sup>*\<^sup>*"

section \<open>What a lookup of the sub connection can do\<close>

lemma newSubConn_RetD:
  "newSubConn L l a = Ret conn \<Longrightarrow> c_rAddr conn = a \<and> \<not> c_doneCh conn \<and> \<not> c_doneOnce conn"
  by (auto simp: newSubConn_def split: sum.splits)

lemma getSubConn_listenerE:
  assumes "getSubConn L (Some a) buf f l = Ret ((co, isNew, er), l')" and "isListener l"
  obtains (known) c where "co = Some c" "map_of (conns l) (addr_String a) = Some c" "l' = l" "\<not> isNew" "er = None"
    | (drop) "co = None" "l' = l" "map_of (conns l) (addr_String a) = None"
    | (full) conn where "co = None" "accepting l" "newSubConn L l (Some a) = Ret conn"
        "l' = l\<lparr>objs := objs l @ [conn]\<rparr>" "er = Some ErrListenQueueExceeded"
        "acceptCap l + parked l \<le> length (acceptCh l)"
    | (new) conn where "co = Some (length (objs l))" "accepting l" "newSubConn L l (Some a) = Ret conn"
        "map_of (conns l) (addr_String a) = None" "length (acceptCh l) < acceptCap l + parked l" "isNew" "er = None"
        "l' = l\<lparr>objs := objs l @ [conn], acceptCh := acceptCh l @ [length (objs l)],
           conns := conns l @ [(addr_String a, length (objs l))]\<rparr>"
proof (cases "map_of (conns l) (addr_String a)")
  case (Some c)
  with assms(1) have "co = Some c" "l' = l" "\<not> isNew" "er = None"
    by (simp_all add: getSubConn_def rAddrString_def)
  with Some show ?thesis by (intro known)
next
  case None
  show ?thesis
  proof (cases "accepting l \<and> \<not> (f \<and> (case acceptFilter l of None \<Rightarrow> False | Some g \<Rightarrow> \<not> g buf))")
    case False
    then have "co = None" "l' = l"
      using assms(1) None by (auto simp: getSubConn_def rAddrString_def split: if_splits)
    with None show ?thesis by (intro drop)
  next
    case True
    then obtain conn where conn: "newSubConn L l (Some a) = Ret conn"
      using assms(1) None by (cases "newSubConn L l (Some a)") (auto simp: getSubConn_def rAddrString_def)
    show ?thesis
    proof (cases "length (acceptCh l) < acceptCap l + parked l")
      case room: True
      then have "co = Some (length (objs l))" "isNew" "er = None"
        "l' = l\<lparr>objs := objs l @ [conn], acceptCh := acceptCh l @ [length (objs l)],
           conns := conns l @ [(addr_String a, length (objs l))]\<rparr>"
        using assms None True conn
        by (auto simp: getSubConn_def rAddrString_def Let_def update_fresh [OF None])
      with True None conn room show ?thesis by (intro new) auto
    next
      case False
      then have "co = None" "l' = l\<lparr>objs := objs l @ [conn]\<rparr>" "er = Some ErrListenQueueExceeded"
        using assms None True conn by (auto simp: getSubConn_def rAddrString_def Let_def)
      with True conn False show ?thesis by (intro full) auto
    qed
  qed
qed

section \<open>The table of connections and the accepted connections\<close>

text \<open>
  What the invariant needs of a \<open>Conn\<close> object: its address and its two flags.  A connection is in the
  table from its creation until its \<open>Close\<close> (or the draining \<open>Close\<close> of the super connection) deletes
  it; until then it is in the accept channel, received by a caller of \<open>Accept\<close>, or accepted.
\<close>

type_synonym conn_core = "net_addr option \<times> bool \<times> bool"

definition core :: "('q, 'd) Conn \<Rightarrow> conn_core" where
  "core c = (c_rAddr c, c_doneCh c, c_doneOnce c)"

definition listed :: "conn_pc \<Rightarrow> bool" where
  "listed k \<longleftrightarrow> k \<in> {KOpen, KDecr, KSignalled}"

definition table_inv ::
    "(string, nat) go_map \<Rightarrow> conn_core list \<Rightarrow> nat list \<Rightarrow> nat list \<Rightarrow> nat list \<Rightarrow> (nat \<Rightarrow> conn_pc) \<Rightarrow> bool" where
  "table_inv cs os ch pend user kpc \<longleftrightarrow>
     distinct (ch @ pend @ user) \<and> map_wf cs \<and> distinct (map snd cs)
     \<and> snd ` set cs = set ch \<union> set pend \<union> {c \<in> set user. listed (kpc c)}
     \<and> (\<forall>k c. (k, c) \<in> set cs \<longrightarrow> (\<exists>a. fst (os ! c) = Some a \<and> addr_String a = k))
     \<and> (\<forall>c \<in> set ch \<union> set pend \<union> set user. c < length os \<and> fst (os ! c) \<noteq> None
          \<and> snd (os ! c) = (kpc c \<notin> {KOpen, KDecr}, kpc c \<noteq> KOpen))
     \<and> (\<forall>c. c \<notin> set user \<longrightarrow> kpc c = KOpen)"

lemma table_new:
  assumes inv: "table_inv cs os ch pend user kpc" and k: "map_of cs (addr_String a) = None"
  shows "table_inv (cs @ [(addr_String a, length os)]) (os @ [(Some a, False, False)]) (ch @ [length os]) pend user kpc"
proof -
  have fresh: "length os \<notin> set ch \<union> set pend \<union> set user"
    using inv by (auto simp: table_inv_def)
  then have "length os \<notin> snd ` set cs"
    using inv by (auto simp: table_inv_def)
  moreover have "addr_String a \<notin> fst ` set cs"
    using k by (simp add: map_of_eq_None_iff)
  moreover have "c < length os" if "(x, c) \<in> set cs" for x c
  proof -
    have "c \<in> snd ` set cs" using that by force
    then show ?thesis using inv by (auto simp: table_inv_def)
  qed
  moreover have "kpc (length os) = KOpen"
    using inv fresh by (auto simp: table_inv_def)
  ultimately show ?thesis
    using inv fresh unfolding table_inv_def by (auto simp: nth_append less_Suc_eq)
qed

lemma table_user:
  "table_inv cs os ch pend user kpc \<Longrightarrow> c \<in> set user \<Longrightarrow>
   c < length os \<and> fst (os ! c) \<noteq> None \<and> snd (os ! c) = (kpc c \<notin> {KOpen, KDecr}, kpc c \<noteq> KOpen)"
  by (simp add: table_inv_def)

lemma table_garbage:
  assumes inv: "table_inv cs os ch pend user kpc"
  shows "table_inv cs (os @ [x]) ch pend user kpc"
proof -
  have "c < length os" if "(k, c) \<in> set cs" for k c
  proof -
    have "c \<in> snd ` set cs" using that by force
    then show ?thesis using inv by (auto simp: table_inv_def)
  qed
  then show ?thesis
    using inv unfolding table_inv_def by (auto simp: nth_append less_Suc_eq)
qed

lemma table_recv:
  "table_inv cs os (c # ch) pend user kpc \<Longrightarrow> table_inv cs os ch (c # pend) user kpc"
  by (auto simp: table_inv_def)

lemma table_add:
  assumes "table_inv cs os ch pend user kpc" and "c \<in> set pend"
  shows "table_inv cs os ch (remove1 c pend) (c # user) kpc"
proof -
  have d: "distinct pend" "distinct (ch @ pend @ user)"
    using assms(1) by (auto simp: table_inv_def)
  then have "kpc c = KOpen" "set (remove1 c pend) = set pend - {c}"
    using assms by (auto simp: table_inv_def)
  then show ?thesis
    using assms d unfolding table_inv_def by (auto simp: listed_def)
qed

lemma table_drain:
  assumes inv: "table_inv cs os (c # ch) pend user kpc" and os: "os ! c = (Some a, x)"
  shows "table_inv (AList.delete (addr_String a) cs) (os[c := y]) ch pend user kpc"
proof -
  have "c \<in> snd ` set cs"
    using inv by (auto simp: table_inv_def)
  then obtain k where "(k, c) \<in> set cs" by force
  then have kc: "(addr_String a, c) \<in> set cs"
    using inv os by (force simp: table_inv_def)
  have wf: "map_wf cs" "distinct (map snd cs)"
    using inv by (auto simp: table_inv_def)
  note del = snd_delete [OF wf kc] distinct_snd_delete [OF wf(2)] map_wf_delete [OF wf(1)]
  have c: "c \<notin> set ch \<union> set pend \<union> set user"
    using inv by (auto simp: table_inv_def)
  have "\<exists>b. fst (os[c := y] ! d) = Some b \<and> addr_String b = k" if "(k, d) \<in> set (AList.delete (addr_String a) cs)" for k d
  proof -
    have "d \<noteq> c" "(k, d) \<in> set cs"
      using that del(1) by (force simp: delete_conv_set)+
    then show ?thesis using inv by (auto simp: table_inv_def)
  qed
  moreover have "os[c := y] ! d = os ! d" if "d \<in> set ch \<union> set pend \<union> set user" for d
    using c that by (intro nth_list_update_neq) blast
  ultimately show ?thesis
    using inv del c unfolding table_inv_def by auto
qed

text \<open>The steps of \<open>Conn.Close\<close> on an accepted connection.\<close>

lemma table_close_step:
  assumes inv: "table_inv cs os ch pend user kpc" and c: "c \<in> set user"
    and k: "listed (kpc c)" "listed k'" and os: "os ! c = (ra, x)"
    and y: "y = (k' \<notin> {KOpen, KDecr}, k' \<noteq> KOpen)"
  shows "table_inv cs (os[c := (ra, y)]) ch pend user (kpc(c := k'))"
proof -
  have notch: "c \<notin> set ch \<union> set pend" and len: "c < length os" and "fst (os ! c) \<noteq> None"
    using inv c by (auto simp: table_inv_def)
  then have ra: "ra \<noteq> None" by (simp add: os)
  have nth: "os[c := (ra, y)] ! d = (if d = c then (ra, y) else os ! d)" for d
    using len by simp
  have addr: "fst (os[c := (ra, y)] ! d) = fst (os ! d)" for d
    by (simp add: nth os)
  show ?thesis
    using inv unfolding table_inv_def length_list_update addr
    by (elim conjE, intro conjI) (use c k y ra notch in \<open>auto simp: nth\<close>)
qed

lemma table_delete:
  assumes inv: "table_inv cs os ch pend user kpc" and c: "c \<in> set user" and k: "kpc c = KSignalled"
    and os: "os ! c = (Some a, x)"
  shows "table_inv (AList.delete (addr_String a) cs) os ch pend user (kpc(c := KDeleted n))"
    and "(addr_String a, c) \<in> set cs"
proof -
  have "c \<in> snd ` set cs"
    using inv c k by (auto simp: table_inv_def listed_def)
  then obtain k0 where "(k0, c) \<in> set cs" by force
  then show kc: "(addr_String a, c) \<in> set cs"
    using inv os by (force simp: table_inv_def)
  have wf: "map_wf cs" "distinct (map snd cs)"
    using inv by (auto simp: table_inv_def)
  note del = snd_delete [OF wf kc] distinct_snd_delete [OF wf(2)] map_wf_delete [OF wf(1)]
  have "c \<notin> set ch \<union> set pend"
    using inv c by (auto simp: table_inv_def)
  then show "table_inv (AList.delete (addr_String a) cs) os ch pend user (kpc(c := KDeleted n))"
    using inv del c k unfolding table_inv_def by (auto simp: delete_conv_set listed_def)
qed

lemma table_after:
  assumes "table_inv cs os ch pend user kpc" and "c \<in> set user"
    and "\<not> listed (kpc c)" "\<not> listed k'"
  shows "table_inv cs os ch pend user (kpc(c := k'))"
  using assms unfolding table_inv_def by (auto simp: listed_def)

section \<open>The invariant of the system\<close>

fun past :: "close_pc \<Rightarrow> bool" where
  "past (CDecr n) = True"
| "past (CDone e) = True"
| "past _ = False"

fun drained :: "close_pc \<Rightarrow> bool" where
  "drained (CDrained n) = True"
| "drained pc = past pc"

definition open_conns :: "('q, 'd) sys \<Rightarrow> nat list" where
  "open_conns s = filter (\<lambda>c. m_kpc s c = KOpen) (m_user s)"

text \<open>
  The flags and channels follow the callers of \<open>Close\<close>; the connection wait group counts the super
  connection itself and the accepted connections whose \<open>Close\<close> has not started; the read wait group
  counts the read loop and the closing goroutine; the raw connection is closed only after the super
  connection gave up its count; once drained, the accept channel stays empty.
\<close>

definition ctl_inv :: "('q, 'd) sys \<Rightarrow> bool" where
  "ctl_inv s \<longleftrightarrow>
     isListener (m_sup s)
     \<and> (accepting (m_sup s) \<longleftrightarrow> m_close s = CIdle)
     \<and> (doneCh (m_sup s) \<longleftrightarrow> m_close s \<notin> {CIdle, CStopped})
     \<and> (readDoneCh (m_sup s) \<longleftrightarrow> m_reader s \<in> {RSignalled, RDone})
     \<and> connWG (m_sup s) = (if past (m_close s) then 0 else 1) + int (length (open_conns s))
     \<and> readWG (m_sup s) = (if m_reader s = RDone then 0 else 1) + (if m_pclosed s then 0 else 1)
     \<and> (m_pclosed s \<longrightarrow> past (m_close s))
     \<and> (drained (m_close s) \<longrightarrow> acceptCh (m_sup s) = [])
     \<and> length (acceptCh (m_sup s)) \<le> acceptCap (m_sup s) + parked (m_sup s)"

definition sys_inv :: "('q, 'd) sys \<Rightarrow> bool" where
  "sys_inv s \<longleftrightarrow> ctl_inv s
     \<and> table_inv (conns (m_sup s)) (map core (objs (m_sup s))) (acceptCh (m_sup s))
         (m_pending s) (m_user s) (m_kpc s)
     \<and> (\<forall>c pkt. m_reader s = RGot c pkt \<longrightarrow> c < length (objs (m_sup s)))"

lemma sys_invI:
  assumes "ctl_inv s"
    and "table_inv (conns (m_sup s)) (map core (objs (m_sup s))) (acceptCh (m_sup s))
         (m_pending s) (m_user s) (m_kpc s)"
    and "\<And>c pkt. m_reader s = RGot c pkt \<Longrightarrow> c < length (objs (m_sup s))"
  shows "sys_inv s"
  using assms by (simp add: sys_inv_def)

lemma sys_init_inv: "sys_inv (sys_init L caps la ra filt backlog)"
  by (simp add: sys_inv_def ctl_inv_def sys_init_def wrapConn_def open_conns_def table_inv_def)

text \<open>Operations that touch neither the table nor the flags.\<close>

definition same_ctl :: "('q, 'd) supConn \<Rightarrow> ('q, 'd) supConn \<Rightarrow> bool" where
  "same_ctl l l' \<longleftrightarrow>
     isListener l' = isListener l \<and> accepting l' = accepting l \<and> doneCh l' = doneCh l
     \<and> readDoneCh l' = readDoneCh l \<and> connWG l' = connWG l \<and> readWG l' = readWG l
     \<and> acceptCh l' = acceptCh l \<and> acceptCap l' = acceptCap l \<and> parked l' = parked l
     \<and> conns l' = conns l \<and> map core (objs l') = map core (objs l)"

lemma same_ctl_length: "same_ctl l l' \<Longrightarrow> length (objs l') = length (objs l)"
  unfolding same_ctl_def by (metis length_map)

lemma same_ctl_refl: "same_ctl l l"
  by (simp add: same_ctl_def)

lemma same_ctl_trans: "same_ctl l m \<Longrightarrow> same_ctl m n \<Longrightarrow> same_ctl l n"
  by (simp add: same_ctl_def)

lemma map_core_update: "core x = core (xs ! i) \<Longrightarrow> map core (xs[i := x]) = map core xs"
  by (metis list_update_beyond list_update_id map_update not_le)

lemma same_ctl_buffers: "readLoop_buffers L l = (b, ob, l') \<Longrightarrow> same_ctl l l'"
  by (auto simp: readLoop_buffers_def Let_def same_ctl_def split: prod.splits)

lemma same_ctl_received: "received r b ob l = Ret l' \<Longrightarrow> same_ctl l l'"
  by (auto simp: received_def Let_def go_bind_Ret_iff same_ctl_def)

lemma same_ctl_set_queue: "same_ctl l (set_queue i q l)"
  by (simp add: same_ctl_def set_queue_def map_core_update core_def)

lemma same_ctl_push: "same_ctl l (pushPacket L i p l)"
  by (simp add: same_ctl_def pushPacket_def Let_def map_core_update core_def)

lemma same_ctl_put: "same_ctl l (putData L a l)" "same_ctl l (putOob L a l)" "same_ctl l (putBuffers L d ob l)"
  by (simp_all add: same_ctl_def putData_def putOob_def putBuffers_def Let_def split: option.splits)

lemma same_ctl_queue_close:
  assumes "conn_queue_close L i e l = (e', l')"
  shows "same_ctl l l'"
proof -
  have fld: "same_ctl l m \<Longrightarrow> same_ctl l (fold (onQueueClose L) ps m)" for ps m
  proof (induction ps arbitrary: m)
    case (Cons p ps)
    show ?case
      using Cons.IH [OF same_ctl_trans [OF Cons.prems same_ctl_put(3)]] by (simp add: onQueueClose_def)
  qed simp
  show ?thesis
    using assms by (auto simp: conn_queue_close_def fld [OF same_ctl_set_queue] split: prod.splits)
qed

lemma same_ctl_copy: "read_copy L pkt p oob l = Ret (res, l') \<Longrightarrow> same_ctl l l'"
  by (auto simp: read_copy_def intro: same_ctl_trans same_ctl_put split: option.splits prod.splits)

lemma same_ctl_deadline: "SetDeadline L i t l = (e, l') \<Longrightarrow> same_ctl l l'"
  by (auto simp: SetDeadline_def SetReadDeadline_def SetWriteDeadline_def Let_def core_def
      intro!: same_ctl_trans [OF _ same_ctl_set_queue] split: prod.splits)
    (simp add: same_ctl_def map_core_update core_def)

lemma same_ctl_accept_deadline: "supConn_SetDeadline L t l = (e, l') \<Longrightarrow> same_ctl l l'"
  by (auto simp: supConn_SetDeadline_def same_ctl_def)

lemmas same_ctl_ops = same_ctl_buffers same_ctl_set_queue same_ctl_push same_ctl_queue_close
  same_ctl_copy same_ctl_deadline same_ctl_accept_deadline

lemma sys_inv_same:
  assumes "sys_inv s" and "same_ctl (m_sup s) l"
    and "m_reader s = RDone \<longleftrightarrow> r = RDone" and "m_reader s \<in> {RSignalled, RDone} \<longleftrightarrow> r \<in> {RSignalled, RDone}"
    and "\<And>c pkt. r = RGot c pkt \<Longrightarrow> c < length (objs (m_sup s))"
  shows "sys_inv (s\<lparr>m_sup := l, m_reader := r, m_hands := h\<rparr>)"
  using assms same_ctl_length [OF assms(2)]
  by (simp add: sys_inv_def ctl_inv_def open_conns_def same_ctl_def)

text \<open>Counting the open connections.\<close>

lemma open_conns_close:
  assumes "distinct (m_user s)" and "c \<in> set (m_user s)" and "m_kpc s c = KOpen" and "k \<noteq> KOpen"
  shows "Suc (length (filter (\<lambda>d. ((m_kpc s)(c := k)) d = KOpen) (m_user s))) = length (open_conns s)"
proof -
  have "filter (\<lambda>d. ((m_kpc s)(c := k)) d = KOpen) (m_user s) = remove1 c (open_conns s)"
    using assms by (simp add: open_conns_def distinct_remove1_removeAll filter_remove1 removeAll_filter_not_eq)
      (auto intro!: filter_cong)
  moreover have "c \<in> set (open_conns s)"
    using assms by (simp add: open_conns_def)
  ultimately show ?thesis
    by (simp add: length_remove1) (metis Suc_pred length_pos_if_in_set)
qed

lemma open_conns_same:
  assumes "m_kpc s c \<noteq> KOpen" and "k \<noteq> KOpen"
  shows "filter (\<lambda>d. ((m_kpc s)(c := k)) d = KOpen) (m_user s) = open_conns s"
  using assms by (auto simp: open_conns_def intro!: filter_cong)

section \<open>Every step keeps the invariant\<close>

lemma inv_read_packet:
  assumes inv: "sys_inv s" and rd: "m_reader s = RBufs b ob" and rec: "received r b ob (m_sup s) = Ret l"
    and get: "getSubConn L (Some a) (bufs l ! b) True l = Ret ((co, isNew, er), l')"
  shows "sys_inv (s\<lparr>m_sup := l', m_reader := (case co of None \<Rightarrow> RIdle | Some c \<Rightarrow> RGot c pkt)\<rparr>)"
proof -
  have same: "same_ctl (m_sup s) l" by (rule same_ctl_received [OF rec])
  have l: "sys_inv (s\<lparr>m_sup := l\<rparr>)"
    using sys_inv_same [OF inv same, of "m_reader s" "m_hands s"] inv by (simp add: sys_inv_def)
  then have tab: "table_inv (conns l) (map core (objs l)) (acceptCh l) (m_pending s) (m_user s) (m_kpc s)"
    and lis: "isListener l" and acc: "accepting l \<longleftrightarrow> m_close s = CIdle"
    by (auto simp: sys_inv_def ctl_inv_def)
  from get lis show ?thesis
  proof (cases rule: getSubConn_listenerE)
    case (known c)
    then have "c \<in> snd ` set (conns l)"
      by (force dest: map_of_SomeD)
    then have "c < length (objs l)"
      using tab by (auto simp: table_inv_def)
    then show ?thesis
      using l rd known by (simp add: sys_inv_def ctl_inv_def open_conns_def)
  next
    case drop
    then show ?thesis using l rd by (simp add: sys_inv_def ctl_inv_def open_conns_def)
  next
    case (full conn)
    then show ?thesis using l rd acc table_garbage [OF tab]
      by (auto simp: sys_inv_def ctl_inv_def open_conns_def)
  next
    case (new conn)
    then have "core conn = (Some a, False, False)"
      using newSubConn_RetD by (fastforce simp: core_def)
    then show ?thesis using l rd new table_new [OF tab, of a] acc
      by (auto simp: sys_inv_def ctl_inv_def open_conns_def)
  qed
qed

lemma inv_drain:
  assumes inv: "sys_inv s" and pc: "m_close s = CDraining" and ch: "acceptCh (m_sup s) = c # cs"
    and one: "lclose_one c ((m_sup s)\<lparr>acceptCh := cs\<rparr>) = Ret l"
  shows "sys_inv (s\<lparr>m_sup := l\<rparr>)"
proof -
  let ?l = "m_sup s"
  have tab: "table_inv (conns ?l) (map core (objs ?l)) (c # cs) (m_pending s) (m_user s) (m_kpc s)"
    using inv ch by (simp add: sys_inv_def)
  then have c: "c < length (objs ?l)"
    by (auto simp: table_inv_def)
  obtain a where a: "c_rAddr (objs ?l ! c) = Some a" and
    l: "l = ?l\<lparr>acceptCh := cs, objs := (objs ?l)[c := (objs ?l ! c)\<lparr>c_doneCh := True\<rparr>],
           conns := AList.delete (addr_String a) (conns ?l)\<rparr>"
    using one by (auto simp: lclose_one_def Let_def go_bind_Ret_iff chan_close_Ret split: option.splits)
  have "map core (objs ?l) ! c = (Some a, c_doneCh (objs ?l ! c), c_doneOnce (objs ?l ! c))"
    using c a by (simp add: core_def)
  from table_drain [OF tab this, of "(Some a, True, c_doneOnce (objs ?l ! c))"]
  show ?thesis
    using inv pc ch a by (simp add: sys_inv_def ctl_inv_def open_conns_def l map_update core_def)
qed

text \<open>What the invariant says of an accepted connection.\<close>

lemma user_conn:
  assumes inv: "sys_inv s" and c: "c \<in> set (m_user s)"
  shows "table_inv (conns (m_sup s)) (map core (objs (m_sup s))) (acceptCh (m_sup s)) (m_pending s) (m_user s) (m_kpc s)"
    and "distinct (m_user s)" and "c < length (objs (m_sup s))"
    and "map core (objs (m_sup s)) ! c =
      (c_rAddr (objs (m_sup s) ! c), c_doneCh (objs (m_sup s) ! c), c_doneOnce (objs (m_sup s) ! c))"
    and "c_doneCh (objs (m_sup s) ! c) \<longleftrightarrow> m_kpc s c \<notin> {KOpen, KDecr}"
    and "c_doneOnce (objs (m_sup s) ! c) \<longleftrightarrow> m_kpc s c \<noteq> KOpen"
proof -
  show tab: "table_inv (conns (m_sup s)) (map core (objs (m_sup s))) (acceptCh (m_sup s)) (m_pending s) (m_user s) (m_kpc s)"
    using inv by (simp add: sys_inv_def)
  then show "distinct (m_user s)"
    by (simp add: table_inv_def)
  show len: "c < length (objs (m_sup s))"
    using table_user [OF tab c] by auto
  show os: "map core (objs (m_sup s)) ! c =
      (c_rAddr (objs (m_sup s) ! c), c_doneCh (objs (m_sup s) ! c), c_doneOnce (objs (m_sup s) ! c))"
    using len by (simp add: core_def)
  have "snd (map core (objs (m_sup s)) ! c) = (m_kpc s c \<notin> {KOpen, KDecr}, m_kpc s c \<noteq> KOpen)"
    using table_user [OF tab c] by auto
  then show "c_doneCh (objs (m_sup s) ! c) \<longleftrightarrow> m_kpc s c \<notin> {KOpen, KDecr}"
    "c_doneOnce (objs (m_sup s) ! c) \<longleftrightarrow> m_kpc s c \<noteq> KOpen"
    by (simp_all add: os)
qed

lemma inv_conn_step:
  assumes inv: "sys_inv s" and c: "c \<in> set (m_user s)"
  shows "m_kpc s c = KOpen \<Longrightarrow> conn_decr c (m_sup s) = Ret l \<Longrightarrow>
      sys_inv (s\<lparr>m_sup := l, m_kpc := (m_kpc s)(c := KDecr)\<rparr>)"
    and "m_kpc s c = KDecr \<Longrightarrow> conn_signal c (m_sup s) = Ret l \<Longrightarrow>
      sys_inv (s\<lparr>m_sup := l, m_kpc := (m_kpc s)(c := KSignalled)\<rparr>)"
    and "m_kpc s c = KSignalled \<Longrightarrow> conn_delete c (m_sup s) = Ret (n, l) \<Longrightarrow>
      sys_inv (s\<lparr>m_sup := l, m_kpc := (m_kpc s)(c := KDeleted n)\<rparr>)"
    and "\<not> listed (m_kpc s c) \<Longrightarrow> \<not> listed k \<Longrightarrow> same_ctl (m_sup s) l \<Longrightarrow>
      sys_inv (s\<lparr>m_sup := l, m_kpc := (m_kpc s)(c := k)\<rparr>)"
proof -
  let ?l = "m_sup s"
  note tab = user_conn(1) [OF inv c] and dis = user_conn(2) [OF inv c] and os = user_conn(4) [OF inv c]
    and flags = user_conn(5,6) [OF inv c]
  show "sys_inv (s\<lparr>m_sup := l, m_kpc := (m_kpc s)(c := KDecr)\<rparr>)"
    if k: "m_kpc s c = KOpen" and ret: "conn_decr c ?l = Ret l"
  proof -
    have l: "l = ?l\<lparr>connWG := connWG ?l - 1, objs := (objs ?l)[c := (objs ?l ! c)\<lparr>c_doneOnce := True\<rparr>]\<rparr>"
      using ret by (auto simp: conn_decr_def go_bind_Ret_iff wg_add_Ret)
    have "table_inv (conns l) (map core (objs l)) (acceptCh l) (m_pending s) (m_user s) ((m_kpc s)(c := KDecr))"
      using table_close_step [OF tab c _ _ os, of KDecr "(False, True)"] flags k
      by (simp add: l map_update core_def listed_def)
    then show ?thesis
      using inv open_conns_close [OF dis c k, of KDecr]
      by (simp add: sys_inv_def ctl_inv_def open_conns_def l)
  qed
  show "sys_inv (s\<lparr>m_sup := l, m_kpc := (m_kpc s)(c := KSignalled)\<rparr>)"
    if k: "m_kpc s c = KDecr" and ret: "conn_signal c ?l = Ret l"
  proof -
    have l: "l = ?l\<lparr>objs := (objs ?l)[c := (objs ?l ! c)\<lparr>c_doneCh := True\<rparr>]\<rparr>"
      using ret by (auto simp: conn_signal_def go_bind_Ret_iff chan_close_Ret)
    have "table_inv (conns l) (map core (objs l)) (acceptCh l) (m_pending s) (m_user s) ((m_kpc s)(c := KSignalled))"
      using table_close_step [OF tab c _ _ os, of KSignalled "(True, True)"] flags k
      by (simp add: l map_update core_def listed_def)
    then show ?thesis
      using inv open_conns_same [of s c KSignalled] k
      by (simp add: sys_inv_def ctl_inv_def open_conns_def l)
  qed
  show "sys_inv (s\<lparr>m_sup := l, m_kpc := (m_kpc s)(c := KDeleted n)\<rparr>)"
    if k: "m_kpc s c = KSignalled" and ret: "conn_delete c ?l = Ret (n, l)"
  proof -
    obtain a where a: "c_rAddr (objs ?l ! c) = Some a" and l: "l = ?l\<lparr>conns := AList.delete (addr_String a) (conns ?l)\<rparr>"
      using ret by (auto simp: conn_delete_def Let_def split: option.splits)
    show ?thesis
      using table_delete(1) [OF tab c k, of a "(c_doneCh (objs ?l ! c), c_doneOnce (objs ?l ! c))" n] os a inv
        open_conns_same [of s c "KDeleted n"] k
      by (simp add: sys_inv_def ctl_inv_def open_conns_def l)
  qed
  show "sys_inv (s\<lparr>m_sup := l, m_kpc := (m_kpc s)(c := k)\<rparr>)"
    if k: "\<not> listed (m_kpc s c)" "\<not> listed k" and same: "same_ctl ?l l"
    using table_after [OF tab c k] open_conns_same [of s c k] inv same k same_ctl_length [OF same]
    by (simp add: sys_inv_def ctl_inv_def open_conns_def same_ctl_def listed_def)
qed

text \<open>The callers of \<open>Accept\<close>.\<close>

lemma inv_accept:
  assumes inv: "sys_inv s"
  shows "accept_recv (m_sup s) = Some (c, l) \<Longrightarrow> sys_inv (s\<lparr>m_sup := l, m_pending := c # m_pending s\<rparr>)"
    and "0 < parked (m_sup s) \<Longrightarrow> accept_recv (m_sup s) = Some (c, l) \<Longrightarrow>
      sys_inv (s\<lparr>m_sup := l\<lparr>parked := parked l - 1\<rparr>, m_pending := c # m_pending s\<rparr>)"
    and "c \<in> set (m_pending s) \<Longrightarrow> accept_add (m_sup s) = Ret l \<Longrightarrow>
      sys_inv (s\<lparr>m_sup := l, m_pending := remove1 c (m_pending s), m_user := c # m_user s\<rparr>)"
proof -
  let ?l = "m_sup s"
  have tab: "table_inv (conns ?l) (map core (objs ?l)) (acceptCh ?l) (m_pending s) (m_user s) (m_kpc s)"
    using inv by (simp add: sys_inv_def)
  have recv: "\<exists>cs. acceptCh ?l = c # cs \<and> l = ?l\<lparr>acceptCh := cs\<rparr>
      \<and> table_inv (conns ?l) (map core (objs ?l)) cs (c # m_pending s) (m_user s) (m_kpc s)"
    if "accept_recv ?l = Some (c, l)"
    using that tab by (auto simp: accept_recv_def intro: table_recv split: list.splits)
  show "sys_inv (s\<lparr>m_sup := l, m_pending := c # m_pending s\<rparr>)" if "accept_recv ?l = Some (c, l)"
    using inv recv [OF that] by (elim exE) (auto simp: sys_inv_def ctl_inv_def open_conns_def)
  show "sys_inv (s\<lparr>m_sup := l\<lparr>parked := parked l - 1\<rparr>, m_pending := c # m_pending s\<rparr>)"
    if "0 < parked ?l" and "accept_recv ?l = Some (c, l)"
    using inv that(1) recv [OF that(2)] by (elim exE) (auto simp: sys_inv_def ctl_inv_def open_conns_def)
  show "sys_inv (s\<lparr>m_sup := l, m_pending := remove1 c (m_pending s), m_user := c # m_user s\<rparr>)"
    if c: "c \<in> set (m_pending s)" and ret: "accept_add ?l = Ret l"
  proof -
    have k: "m_kpc s c = KOpen"
      using table_add [OF tab c] c tab by (simp add: table_inv_def)
    have l: "l = ?l\<lparr>connWG := connWG ?l + 1\<rparr>"
      using ret by (simp add: accept_add_def go_bind_Ret_iff wg_add_Ret)
    show ?thesis
      using inv table_add [OF tab c] by (simp add: sys_inv_def ctl_inv_def open_conns_def k l)
  qed
qed

text \<open>The steps that change only flags and counters.\<close>

lemma inv_control:
  assumes inv: "sys_inv s"
  shows "m_reader s = RBufs b ob \<Longrightarrow> sys_inv (s\<lparr>m_sup := (m_sup s)\<lparr>errRead := e, bufs := bs\<rparr>, m_reader := RErr\<rparr>)"
    and "m_reader s = RErr \<Longrightarrow> sys_inv (s\<lparr>m_sup := (m_sup s)\<lparr>readDoneCh := True\<rparr>, m_reader := RSignalled\<rparr>)"
    and "m_reader s = RSignalled \<Longrightarrow> wg_done (readWG (m_sup s)) = Ret wg \<Longrightarrow>
      sys_inv (s\<lparr>m_sup := (m_sup s)\<lparr>readWG := wg\<rparr>, m_reader := RDone\<rparr>)"
    and "sys_inv (s\<lparr>m_sup := (m_sup s)\<lparr>parked := Suc (parked (m_sup s))\<rparr>\<rparr>)"
    and "length (acceptCh (m_sup s)) < acceptCap (m_sup s) + parked (m_sup s) \<Longrightarrow>
      sys_inv (s\<lparr>m_sup := (m_sup s)\<lparr>parked := parked (m_sup s) - 1\<rparr>\<rparr>)"
  using inv by (auto simp: sys_inv_def ctl_inv_def open_conns_def wg_add_Ret)

lemma inv_close:
  assumes inv: "sys_inv s"
  shows "m_close s = CIdle \<Longrightarrow> sys_inv (s\<lparr>m_sup := close_stop (m_sup s), m_close := CStopped\<rparr>)"
    and "m_close s = CStopped \<Longrightarrow> close_signal (m_sup s) = Ret l \<Longrightarrow>
      sys_inv (s\<lparr>m_sup := l, m_close := CDraining\<rparr>)"
    and "m_close s = CDraining \<Longrightarrow> acceptCh (m_sup s) = [] \<Longrightarrow> sys_inv (s\<lparr>m_close := CDrained n\<rparr>)"
    and "m_close s = CDrained n \<Longrightarrow> close_done (m_sup s) = Ret l \<Longrightarrow>
      sys_inv (s\<lparr>m_sup := l, m_close := CDecr n\<rparr>)"
    and "m_close s = CDecr n \<Longrightarrow> sys_inv (s\<lparr>m_close := CDone e\<rparr>)"
    and "\<not> m_pclosed s \<Longrightarrow> closer_goroutine e (m_sup s) = Ret (Some l) \<Longrightarrow>
      sys_inv (s\<lparr>m_sup := l, m_pclosed := True\<rparr>)"
  using inv
  by (auto simp: sys_inv_def ctl_inv_def open_conns_def close_stop_def close_signal_def close_done_def
      closer_goroutine_def go_bind_Ret_iff chan_close_Ret wg_add_Ret split: if_splits)

lemmas inv_steps = inv_control inv_close inv_accept inv_drain

lemma step_sys_inv:
  assumes "step L s t" and "sys_inv s"
  shows "sys_inv t"
  using assms
proof (induction rule: step.induct)
  case (read_get s b ob l)
  then show ?case
    using sys_inv_same [of s l "RBufs b ob" "m_hands s"] by (simp add: same_ctl_buffers)
next
  case (read_packet s b ob r a l co isNew er l')
  then show ?case using inv_read_packet [of s b ob r l L a co isNew er l'] by simp
next
  case (read_push s c pkt)
  then show ?case
    using sys_inv_same [of s "pushPacket L c pkt (m_sup s)" RIdle "m_hands s"] by (simp add: same_ctl_push)
next
  case (u_pop c s now pkt q)
  then show ?case
    using sys_inv_same [of s "set_queue c q (m_sup s)" "m_reader s" "pkt # m_hands s"]
    by (simp add: same_ctl_set_queue sys_inv_def)
next
  case (u_copy pkt s p oob res l)
  then show ?case
    using sys_inv_same [of s l "m_reader s" "remove1 pkt (m_hands s)"]
    by (simp add: same_ctl_copy sys_inv_def)
next
  case (k_wait c s n e)
  then show ?case using inv_conn_step(4) [of s c "KWaited e" "m_sup s"] by (simp add: listed_def same_ctl_refl)
next
  case (k_queue c s e e' l)
  then show ?case
    using inv_conn_step(4) [of s c "KClosed e'" l] by (simp add: listed_def same_ctl_queue_close)
next
  case (u_error c s now er q)
  then show ?case
    using sys_inv_same [of s "set_queue c q (m_sup s)" "m_reader s" "m_hands s"]
    by (simp add: same_ctl_set_queue sys_inv_def)
next
  case (u_deadline c s t er l)
  then show ?case
    using sys_inv_same [of s l "m_reader s" "m_hands s"] by (simp add: same_ctl_deadline sys_inv_def)
next
  case (u_accept_deadline t s er l)
  then show ?case
    using sys_inv_same [of s l "m_reader s" "m_hands s"] by (simp add: same_ctl_accept_deadline sys_inv_def)
qed (simp_all add: inv_steps inv_conn_step chan_close_Ret del: One_nat_def)

end
