(* ===== verification/Sup_Exec.thy ===== *)
theory Sup_Exec
  imports Sup_Machine
begin

text \<open>
  An executable scheduler for the system of \<open>Sup_Machine\<close>: an action names the goroutine that moves,
  its choice where \<open>select\<close> or the environment has one, and what the raw connection answers.  The
  scheduler can take exactly the steps of the step relation, so concrete runs can be evaluated.
\<close>

datatype act =
    ReadGet | ReadPacket raw_read | ReadPush | ReadError raw_read | ReadSignal | ReadDone
  | AccPark int | AccLeave int accept_case | AccWake | AccRecv | AccAdd nat
  | ClStop | ClSignal | ClDrain | ClDrained | ClDone | ClRet | Closer "err option"
  | KDecrA nat | KSignalA nat | KDeleteA nat | KWaitA nat | KQueueA nat
  | UPop int nat | UCopy receivedPacket "byte list" "byte list" | UError int nat
  | UDeadline nat time | UAcceptDeadline time

definition guard :: "bool \<Rightarrow> 'a option \<Rightarrow> 'a option" where
  "guard b x = (if b then x else None)"

lemma guard_Some [simp]: "guard b x = Some y \<longleftrightarrow> b \<and> x = Some y"
  by (simp add: guard_def)

fun returned :: "'a go \<Rightarrow> 'a option" where
  "returned (Ret x) = Some x"
| "returned _ = None"

lemma returned_Some [simp]: "returned m = Some x \<longleftrightarrow> m = Ret x"
  by (cases m) auto

fun exec_read :: "('q, 'd) lib \<Rightarrow> act \<Rightarrow> ('q, 'd) sys \<Rightarrow> ('q, 'd) sys option" where
  "exec_read L ReadGet s =
     guard (m_reader s = RIdle)
       (case readLoop_buffers L (m_sup s) of (b, ob, l) \<Rightarrow> Some (s\<lparr>m_sup := l, m_reader := RBufs b ob\<rparr>))"
| "exec_read L (ReadPacket r) s =
     (case m_reader s of
        RBufs b ob \<Rightarrow>
          guard (m_close s \<noteq> CDraining \<and> rr_err r = None \<and> rr_addr r \<noteq> None)
            (Option.bind (returned (received r b ob (m_sup s))) (\<lambda>l.
             Option.bind (returned (getSubConn L (rr_addr r) (bufs l ! b) True l)) (\<lambda>((co, isNew, er), l').
               Some (s\<lparr>m_sup := l', m_reader := (case co of None \<Rightarrow> RIdle
                 | Some c \<Rightarrow> RGot c \<lparr>pkt_data = Some b, pkt_oob = Some ob, pkt_ecn = rr_ecn r\<rparr>)\<rparr>))))
      | _ \<Rightarrow> None)"
| "exec_read L ReadPush s =
     (case m_reader s of
        RGot c pkt \<Rightarrow> Some (s\<lparr>m_sup := pushPacket L c pkt (m_sup s), m_reader := RIdle\<rparr>)
      | _ \<Rightarrow> None)"
| "exec_read L (ReadError r) s =
     (case (m_reader s, rr_err r) of
        (RBufs b ob, Some e) \<Rightarrow>
          Some (s\<lparr>m_sup := (m_sup s)\<lparr>errRead := Some e,
            bufs := (bufs (m_sup s))[b := rr_b r, ob := rr_oob r]\<rparr>, m_reader := RErr\<rparr>)
      | _ \<Rightarrow> None)"
| "exec_read L ReadSignal s =
     guard (m_reader s = RErr)
       (Option.bind (returned (chan_close (readDoneCh (m_sup s)))) (\<lambda>ch.
          Some (s\<lparr>m_sup := (m_sup s)\<lparr>readDoneCh := ch\<rparr>, m_reader := RSignalled\<rparr>)))"
| "exec_read L ReadDone s =
     guard (m_reader s = RSignalled)
       (Option.bind (returned (wg_done (readWG (m_sup s)))) (\<lambda>wg.
          Some (s\<lparr>m_sup := (m_sup s)\<lparr>readWG := wg\<rparr>, m_reader := RDone\<rparr>)))"
| "exec_read L _ s = None"

fun exec_accept :: "('q, 'd) lib \<Rightarrow> act \<Rightarrow> ('q, 'd) sys \<Rightarrow> ('q, 'd) sys option" where
  "exec_accept L (AccPark now) s =
     guard (list_all (\<lambda>k. \<not> accept_ready L now (m_sup s) k) [CaseConn, CaseReadDone, CaseDeadline, CaseDone])
       (Some (s\<lparr>m_sup := (m_sup s)\<lparr>parked := Suc (parked (m_sup s))\<rparr>\<rparr>))"
| "exec_accept L (AccLeave now k) s =
     guard (0 < parked (m_sup s) \<and> length (acceptCh (m_sup s)) < acceptCap (m_sup s) + parked (m_sup s)
         \<and> k \<noteq> CaseConn \<and> accept_ready L now (m_sup s) k)
       (Some (s\<lparr>m_sup := (m_sup s)\<lparr>parked := parked (m_sup s) - 1\<rparr>\<rparr>))"
| "exec_accept L AccWake s =
     guard (0 < parked (m_sup s)) (Option.bind (accept_recv (m_sup s)) (\<lambda>(c, l).
       Some (s\<lparr>m_sup := l\<lparr>parked := parked l - 1\<rparr>, m_pending := c # m_pending s\<rparr>)))"
| "exec_accept L AccRecv s =
     Option.bind (accept_recv (m_sup s)) (\<lambda>(c, l). Some (s\<lparr>m_sup := l, m_pending := c # m_pending s\<rparr>))"
| "exec_accept L (AccAdd c) s =
     guard (c \<in> set (m_pending s)) (Option.bind (returned (accept_add (m_sup s))) (\<lambda>l.
       Some (s\<lparr>m_sup := l, m_pending := remove1 c (m_pending s), m_user := c # m_user s\<rparr>)))"
| "exec_accept L _ s = None"

fun exec_close :: "('q, 'd) lib \<Rightarrow> act \<Rightarrow> ('q, 'd) sys \<Rightarrow> ('q, 'd) sys option" where
  "exec_close L ClStop s =
     guard (m_close s = CIdle) (Some (s\<lparr>m_sup := close_stop (m_sup s), m_close := CStopped\<rparr>))"
| "exec_close L ClSignal s =
     guard (m_close s = CStopped) (Option.bind (returned (close_signal (m_sup s))) (\<lambda>l.
       Some (s\<lparr>m_sup := l, m_close := CDraining\<rparr>)))"
| "exec_close L ClDrain s =
     guard (m_close s = CDraining)
       (case acceptCh (m_sup s) of
          [] \<Rightarrow> None
        | c # cs \<Rightarrow> Option.bind (returned (lclose_one c ((m_sup s)\<lparr>acceptCh := cs\<rparr>))) (\<lambda>l. Some (s\<lparr>m_sup := l\<rparr>)))"
| "exec_close L ClDrained s =
     guard (m_close s = CDraining \<and> acceptCh (m_sup s) = [])
       (Some (s\<lparr>m_close := CDrained (length (conns (m_sup s)))\<rparr>))"
| "exec_close L ClDone s =
     (case m_close s of
        CDrained n \<Rightarrow> Option.bind (returned (close_done (m_sup s))) (\<lambda>l. Some (s\<lparr>m_sup := l, m_close := CDecr n\<rparr>))
      | _ \<Rightarrow> None)"
| "exec_close L ClRet s =
     (case m_close s of
        CDecr n \<Rightarrow> (case close_finish n (m_sup s) of CloseRet e \<Rightarrow> Some (s\<lparr>m_close := CDone e\<rparr>) | _ \<Rightarrow> None)
      | _ \<Rightarrow> None)"
| "exec_close L (Closer e) s =
     guard (\<not> m_pclosed s)
       (case returned (closer_goroutine e (m_sup s)) of
          Some (Some l) \<Rightarrow> Some (s\<lparr>m_sup := l, m_pclosed := True\<rparr>)
        | _ \<Rightarrow> None)"
| "exec_close L _ s = None"

fun exec_conn :: "('q, 'd) lib \<Rightarrow> act \<Rightarrow> ('q, 'd) sys \<Rightarrow> ('q, 'd) sys option" where
  "exec_conn L (KDecrA c) s =
     guard (c \<in> set (m_user s) \<and> m_kpc s c = KOpen) (Option.bind (returned (conn_decr c (m_sup s))) (\<lambda>l.
       Some (s\<lparr>m_sup := l, m_kpc := (m_kpc s)(c := KDecr)\<rparr>)))"
| "exec_conn L (KSignalA c) s =
     guard (c \<in> set (m_user s) \<and> m_kpc s c = KDecr) (Option.bind (returned (conn_signal c (m_sup s))) (\<lambda>l.
       Some (s\<lparr>m_sup := l, m_kpc := (m_kpc s)(c := KSignalled)\<rparr>)))"
| "exec_conn L (KDeleteA c) s =
     guard (c \<in> set (m_user s) \<and> m_kpc s c = KSignalled \<and> m_close s \<noteq> CDraining)
       (Option.bind (returned (conn_delete c (m_sup s))) (\<lambda>(n, l).
         Some (s\<lparr>m_sup := l, m_kpc := (m_kpc s)(c := KDeleted n)\<rparr>)))"
| "exec_conn L (KWaitA c) s =
     guard (c \<in> set (m_user s))
       (case m_kpc s c of
          KDeleted n \<Rightarrow> (case conn_wait n (m_sup s) of
             CloseRet e \<Rightarrow> Some (s\<lparr>m_kpc := (m_kpc s)(c := KWaited e)\<rparr>) | _ \<Rightarrow> None)
        | _ \<Rightarrow> None)"
| "exec_conn L (KQueueA c) s =
     guard (c \<in> set (m_user s))
       (case m_kpc s c of
          KWaited e \<Rightarrow> (case conn_queue_close L c e (m_sup s) of (e', l) \<Rightarrow>
             Some (s\<lparr>m_sup := l, m_kpc := (m_kpc s)(c := KClosed e')\<rparr>))
        | _ \<Rightarrow> None)"
| "exec_conn L (UPop now c) s =
     guard (c \<in> set (m_user s))
       (case rq_Pop (lib_rq L) now (c_queue (objs (m_sup s) ! c)) of
          PopItem pkt q \<Rightarrow> Some (s\<lparr>m_sup := set_queue c q (m_sup s), m_hands := pkt # m_hands s\<rparr>)
        | _ \<Rightarrow> None)"
| "exec_conn L (UCopy pkt p oob) s =
     guard (pkt \<in> set (m_hands s)) (Option.bind (returned (read_copy L pkt p oob (m_sup s))) (\<lambda>(res, l).
       Some (s\<lparr>m_sup := l, m_hands := remove1 pkt (m_hands s)\<rparr>)))"
| "exec_conn L (UError now c) s =
     guard (c \<in> set (m_user s))
       (case rq_Pop (lib_rq L) now (c_queue (objs (m_sup s) ! c)) of
          PopErr er q \<Rightarrow> Some (s\<lparr>m_sup := set_queue c q (m_sup s)\<rparr>)
        | _ \<Rightarrow> None)"
| "exec_conn L (UDeadline c t) s =
     guard (c \<in> set (m_user s)) (Some (s\<lparr>m_sup := snd (SetDeadline L c t (m_sup s))\<rparr>))"
| "exec_conn L (UAcceptDeadline t) s = Some (s\<lparr>m_sup := snd (supConn_SetDeadline L t (m_sup s))\<rparr>)"
| "exec_conn L _ s = None"

definition exec :: "('q, 'd) lib \<Rightarrow> act \<Rightarrow> ('q, 'd) sys \<Rightarrow> ('q, 'd) sys option" where
  "exec L a s =
     (case a of
        ReadGet \<Rightarrow> exec_read L a s | ReadPacket r \<Rightarrow> exec_read L a s | ReadPush \<Rightarrow> exec_read L a s
      | ReadError r \<Rightarrow> exec_read L a s | ReadSignal \<Rightarrow> exec_read L a s | ReadDone \<Rightarrow> exec_read L a s
      | AccPark now \<Rightarrow> exec_accept L a s | AccLeave now k \<Rightarrow> exec_accept L a s | AccWake \<Rightarrow> exec_accept L a s
      | AccRecv \<Rightarrow> exec_accept L a s | AccAdd c \<Rightarrow> exec_accept L a s
      | ClStop \<Rightarrow> exec_close L a s | ClSignal \<Rightarrow> exec_close L a s | ClDrain \<Rightarrow> exec_close L a s
      | ClDrained \<Rightarrow> exec_close L a s | ClDone \<Rightarrow> exec_close L a s | ClRet \<Rightarrow> exec_close L a s
      | Closer e \<Rightarrow> exec_close L a s
      | _ \<Rightarrow> exec_conn L a s)"

fun run :: "('q, 'd) lib \<Rightarrow> act list \<Rightarrow> ('q, 'd) sys \<Rightarrow> ('q, 'd) sys option" where
  "run L [] s = Some s"
| "run L (a # as) s = Option.bind (exec L a s) (run L as)"

section \<open>The scheduler takes exactly the steps of the relation\<close>

lemma exec_read_sound: "exec_read L a s = Some t \<Longrightarrow> step L s t"
proof (cases a)
  case (ReadPacket r)
  assume "exec_read L a s = Some t"
  then obtain b ob y l co isNew er l' where
    *: "m_reader s = RBufs b ob" "m_close s \<noteq> CDraining" "rr_err r = None" "rr_addr r = Some y"
      "received r b ob (m_sup s) = Ret l" "getSubConn L (rr_addr r) (bufs l ! b) True l = Ret ((co, isNew, er), l')"
      "t = s\<lparr>m_sup := l', m_reader := (case co of None \<Rightarrow> RIdle
         | Some c \<Rightarrow> RGot c \<lparr>pkt_data = Some b, pkt_oob = Some ob, pkt_ecn = rr_ecn r\<rparr>)\<rparr>"
    by (auto simp: ReadPacket bind_eq_Some_conv split: read_pc.splits)
  show ?thesis
    unfolding *(7) by (rule step.read_packet [OF *(1-6)])
qed (auto simp: bind_eq_Some_conv split: read_pc.splits option.splits prod.splits intro: step.intros)

lemma exec_accept_sound: "exec_accept L a s = Some t \<Longrightarrow> step L s t"
proof (cases a)
  case (AccPark now)
  assume "exec_accept L a s = Some t"
  then have *: "\<not> accept_ready L now (m_sup s) k" "t = s\<lparr>m_sup := (m_sup s)\<lparr>parked := Suc (parked (m_sup s))\<rparr>\<rparr>" for k
    using AccPark by (cases k; auto)+
  then show ?thesis using step.acc_park [of L now s] by simp
qed (auto simp: bind_eq_Some_conv simp del: One_nat_def split: prod.splits intro: step.intros)

lemma exec_close_sound: "exec_close L a s = Some t \<Longrightarrow> step L s t"
  by (cases a) (auto simp: bind_eq_Some_conv intro: step.intros
      split: list.splits close_pc.splits close_result.splits option.splits)

lemma exec_conn_sound: "exec_conn L a s = Some t \<Longrightarrow> step L s t"
  by (cases a) (auto simp: bind_eq_Some_conv split: pop_result.splits conn_pc.splits close_result.splits prod.splits
      intro: step.intros [where L = L] step.u_deadline [OF _ surjective_pairing] step.u_accept_deadline [OF surjective_pairing])

lemma exec_sound: "exec L a s = Some t \<Longrightarrow> step L s t"
  by (cases a) (simp_all add: exec_def exec_read_sound exec_accept_sound exec_close_sound exec_conn_sound
      del: exec_read.simps exec_accept.simps exec_close.simps exec_conn.simps)

lemma exec_complete: "step L s t \<Longrightarrow> \<exists>a. exec L a s = Some t"
proof (induction rule: step.induct)
  case (read_get s b ob l)
  then show ?case by (intro exI [of _ ReadGet]) (simp add: exec_def)
next
  case (read_packet s b ob r a l co isNew er l')
  then show ?case by (intro exI [of _ "ReadPacket r"]) (simp add: exec_def)
next
  case (read_push s c pkt)
  then show ?case by (intro exI [of _ ReadPush]) (simp add: exec_def)
next
  case (read_error s b ob r e)
  then show ?case by (intro exI [of _ "ReadError r"]) (simp add: exec_def)
next
  case (read_signal s ch)
  then show ?case by (intro exI [of _ ReadSignal]) (simp add: exec_def)
next
  case (read_done s wg)
  then show ?case by (intro exI [of _ ReadDone]) (simp add: exec_def)
next
  case (acc_park now s)
  then show ?case by (intro exI [of _ "AccPark now"]) (simp add: exec_def)
next
  case (acc_leave s k now)
  then show ?case by (intro exI [of _ "AccLeave now k"]) (simp add: exec_def)
next
  case (acc_wake s c l)
  then show ?case by (intro exI [of _ AccWake]) (simp add: exec_def)
next
  case (acc_recv s c l)
  then show ?case by (intro exI [of _ AccRecv]) (simp add: exec_def)
next
  case (acc_add c s l)
  then show ?case by (intro exI [of _ "AccAdd c"]) (simp add: exec_def)
next
  case (cl_stop s)
  then show ?case by (intro exI [of _ ClStop]) (simp add: exec_def)
next
  case (cl_signal s l)
  then show ?case by (intro exI [of _ ClSignal]) (simp add: exec_def)
next
  case (cl_drain s c cs l)
  then show ?case by (intro exI [of _ ClDrain]) (simp add: exec_def)
next
  case (cl_drained s)
  then show ?case by (intro exI [of _ ClDrained]) (simp add: exec_def)
next
  case (cl_done s n l)
  then show ?case by (intro exI [of _ ClDone]) (simp add: exec_def)
next
  case (cl_ret s n e)
  then show ?case by (intro exI [of _ ClRet]) (simp add: exec_def)
next
  case (closer s e l)
  then show ?case by (intro exI [of _ "Closer e"]) (simp add: exec_def)
next
  case (k_decr c s l)
  then show ?case by (intro exI [of _ "KDecrA c"]) (simp add: exec_def)
next
  case (k_signal c s l)
  then show ?case by (intro exI [of _ "KSignalA c"]) (simp add: exec_def)
next
  case (k_delete c s n l)
  then show ?case by (intro exI [of _ "KDeleteA c"]) (simp add: exec_def)
next
  case (k_wait c s n e)
  then show ?case by (intro exI [of _ "KWaitA c"]) (simp add: exec_def)
next
  case (k_queue c s e e' l)
  then show ?case by (intro exI [of _ "KQueueA c"]) (simp add: exec_def)
next
  case (u_pop c s now pkt q)
  then show ?case by (intro exI [of _ "UPop now c"]) (simp add: exec_def)
next
  case (u_copy pkt s p oob res l)
  then show ?case by (intro exI [of _ "UCopy pkt p oob"]) (simp add: exec_def)
next
  case (u_error c s now er q)
  then show ?case by (intro exI [of _ "UError now c"]) (simp add: exec_def)
next
  case (u_deadline c s t er l)
  then show ?case by (intro exI [of _ "UDeadline c t"]) (simp add: exec_def)
next
  case (u_accept_deadline t s er l)
  then show ?case by (intro exI [of _ "UAcceptDeadline t"]) (simp add: exec_def)
qed

lemma run_sound: "run L as s = Some t \<Longrightarrow> steps L s t"
proof (induction as arbitrary: s)
  case (Cons a as)
  then obtain u where "exec L a s = Some u" "run L as u = Some t"
    by (auto simp: bind_eq_Some_conv)
  then show ?case
    using Cons.IH exec_sound by (meson converse_rtranclp_into_rtranclp)
qed simp

lemma run_append: "run L (as @ bs) s = Option.bind (run L as s) (run L bs)"
  by (induction as arbitrary: s) (auto split: bind_splits)

lemma run_complete: "steps L s t \<Longrightarrow> \<exists>as. run L as s = Some t"
proof (induction rule: rtranclp_induct)
  case base
  then show ?case by (intro exI [of _ "[]"]) simp
next
  case (step t u)
  then obtain as a where "run L as s = Some t" "exec L a t = Some u"
    using exec_complete by blast
  then show ?case by (intro exI [of _ "as @ [a]"]) (simp add: run_append)
qed


section \<open>A concrete listener\<close>

text \<open>
  Used to evaluate runs: the reference libraries, a backlog of one, one packet from the remote \<open>a\<close>,
  and a failing read.
\<close>

definition demo_read :: raw_read where
  "demo_read = \<lparr>rr_n = 1, rr_oobN = 0, rr_ecn = ECNNon, rr_addr = Some \<lparr>addr_String = ''a'', addr_UDP = None\<rparr>,
     rr_err = None, rr_b = [7], rr_oob = []\<rparr>"

definition demo_fail :: raw_read where
  "demo_fail = \<lparr>rr_n = 0, rr_oobN = 0, rr_ecn = ECNNon, rr_addr = None, rr_err = Some EOF, rr_b = [], rr_oob = []\<rparr>"

definition demo_init :: "(bq, time) sys" where
  "demo_init = sys_init ref_lib 0 None None None 1"

lemmas demo_simps = demo_read_def demo_fail_def demo_init_def sys_init_def wrapConn_def ref_lib_defs
  exec_def guard_def readLoop_buffers_def pool_get_def received_def getSubConn_def rAddrString_def newSubConn_def
  receiveBacklog_def slice_to_def grow_def receiveMTU_def oobSize_def Let_def pushPacket_def accept_recv_def
  accept_add_def wg_add_def chan_close_def close_stop_def close_signal_def lclose_one_def close_done_def
  close_finish_def closer_goroutine_def conn_decr_def conn_signal_def conn_delete_def conn_wait_def
  conn_queue_close_def set_queue_def onQueueClose_def putBuffers_def putData_def putOob_def read_copy_def

end
