(* ===== verification/Sup_Safety.thy ===== *)
theory Sup_Safety
  imports Sup_Exec
begin

text \<open>
  What the invariant of \<open>Sup_Machine\<close> gives for every interleaving of a listener's goroutines: the
  table of connections is exact, the socket is closed at the right moment, \<open>Close\<close> returns what it
  promises and can always return.
\<close>

interpretation sys: step_invariant "step L" sys_inv
  by unfold_locales (rule step_sys_inv)

text \<open>A state that some run of a listener reaches, from any parameters of \<open>wrapConn\<close>.\<close>

definition reachable :: "('q, 'd) lib \<Rightarrow> ('q, 'd) sys \<Rightarrow> bool" where
  "reachable L s \<longleftrightarrow> (\<exists>caps la ra filt backlog. steps L (sys_init L caps la ra filt backlog) s)"

lemma reachable_inv: "reachable L s \<Longrightarrow> sys_inv s"
  unfolding reachable_def using sys.steps_inv sys_init_inv by blast

lemma reachable_init: "reachable L (sys_init L caps la ra filt backlog)"
  unfolding reachable_def by blast

lemma reachable_step: "reachable L s \<Longrightarrow> step L s t \<Longrightarrow> reachable L t"
  unfolding reachable_def by (meson rtranclp.rtrancl_into_rtrancl)

lemma reachable_steps: "reachable L s \<Longrightarrow> steps L s t \<Longrightarrow> reachable L t"
  unfolding reachable_def by (meson rtranclp_trans)

lemma demo_reachable: "run ref_lib as demo_init = Some s \<Longrightarrow> reachable ref_lib s"
  unfolding demo_init_def using run_sound reachable_init reachable_steps by blast

lemma inv_ctl: "sys_inv s \<Longrightarrow> ctl_inv s"
  by (simp add: sys_inv_def)

section \<open>Which step does what\<close>

text \<open>The raw connection is closed by one step only, and \<open>Close\<close> returns by one step only.\<close>

lemma pclosed_step:
  assumes "step L s t" and "m_pclosed t" and "\<not> m_pclosed s"
  shows "connWG (m_sup s) = 0"
  using assms by (cases rule: step.cases) (auto simp: closer_goroutine_def split: if_splits)

lemma close_ret_step:
  assumes "step L s t" and "m_close t = CDone e" and "m_close s \<noteq> CDone e"
  shows "\<exists>n. m_close s = CDecr n \<and> close_finish n (m_sup s) = CloseRet e \<and> t = s\<lparr>m_close := CDone e\<rparr>"
  using assms by (cases rule: step.cases) auto

lemma conn_wait_step:
  assumes "step L s t" and "m_kpc t c = KWaited e" and "m_kpc s c \<noteq> KWaited e"
  shows "\<exists>n. m_kpc s c = KDeleted n \<and> conn_wait n (m_sup s) = CloseRet e \<and> c \<in> set (m_user s)"
  using assms by (cases rule: step.cases) (auto split: if_splits)

lemma all_done:
  assumes "sys_inv s" and "readWG (m_sup s) = 0"
  shows "m_pclosed s" and "m_reader s = RDone" and "past (m_close s)"
  using assms by (auto simp: sys_inv_def ctl_inv_def split: if_splits)

section \<open>Properties\<close>

text \<open>
  C5: In every reachable state the table \<open>conns\<close> holds exactly the connections that wait in
  \<open>acceptCh\<close>, were received by a caller of \<open>Accept\<close>, or were returned by \<open>Accept\<close> and not yet removed
  by their \<open>Close\<close>; each is stored once, under the text of its own remote address.
\<close>

theorem conns_exact:
  assumes "reachable L s"
  shows "map_wf (conns (m_sup s)) \<and> distinct (map snd (conns (m_sup s)))
    \<and> snd ` set (conns (m_sup s)) = set (acceptCh (m_sup s)) \<union> set (m_pending s)
        \<union> {c \<in> set (m_user s). m_kpc s c \<in> {KOpen, KDecr, KSignalled}}
    \<and> (\<forall>(k, c) \<in> set (conns (m_sup s)). c < length (objs (m_sup s))
        \<and> (\<exists>a. c_rAddr (objs (m_sup s) ! c) = Some a \<and> addr_String a = k))"
proof -
  let ?l = "m_sup s"
  have tab: "table_inv (conns ?l) (map core (objs ?l)) (acceptCh ?l) (m_pending s) (m_user s) (m_kpc s)"
    using reachable_inv [OF assms] by (simp add: sys_inv_def)
  have len: "c < length (objs ?l)" if "(k, c) \<in> set (conns ?l)" for k c
  proof -
    have "c \<in> snd ` set (conns ?l)" using that by force
    then have "c \<in> set (acceptCh ?l) \<union> set (m_pending s) \<union> set (m_user s)"
      using tab by (auto simp: table_inv_def)
    then show ?thesis using tab by (simp add: table_inv_def)
  qed
  moreover have "\<exists>a. c_rAddr (objs ?l ! c) = Some a \<and> addr_String a = k" if "(k, c) \<in> set (conns ?l)" for k c
  proof -
    have "\<exists>a. fst (map core (objs ?l) ! c) = Some a \<and> addr_String a = k"
      using tab that by (simp add: table_inv_def)
    then show ?thesis using len [OF that] by (simp add: core_def)
  qed
  moreover have "map_wf (conns ?l)" "distinct (map snd (conns ?l))"
    "snd ` set (conns ?l) = set (acceptCh ?l) \<union> set (m_pending s)
        \<union> {c \<in> set (m_user s). m_kpc s c \<in> {KOpen, KDecr, KSignalled}}"
    using tab by (simp_all only: table_inv_def listed_def)
  ultimately show ?thesis by blast
qed

theorem conns_exact_witness:
  "\<exists>s. run ref_lib [ReadGet, ReadPacket demo_read] demo_init = Some s \<and> conns (m_sup s) = [(''a'', 0)]
    \<and> snd ` set (conns (m_sup s)) = set (acceptCh (m_sup s)) \<union> set (m_pending s)
        \<union> {c \<in> set (m_user s). m_kpc s c \<in> {KOpen, KDecr, KSignalled}}"
proof -
  obtain s where s: "run ref_lib [ReadGet, ReadPacket demo_read] demo_init = Some s" "conns (m_sup s) = [(''a'', 0)]"
    by (simp add: demo_simps)
  show ?thesis
    using s conns_exact [OF demo_reachable [OF s(1)]] by blast
qed



text \<open>
  C8: When \<open>supConn.Close\<close> returns and found no accepted connection in the table, the raw connection
  has been closed and the read loop has ended; the result is the error of closing the raw connection.
\<close>

theorem close_returns_after_shutdown:
  assumes "reachable L s" and "step L s t" and "m_close s = CDecr 0" and "m_close t = CDone e"
  shows "m_pclosed t \<and> m_reader t = RDone \<and> e = errClose (m_sup t)"
proof -
  obtain n where n: "m_close s = CDecr n" "close_finish n (m_sup s) = CloseRet e" "t = s\<lparr>m_close := CDone e\<rparr>"
    using close_ret_step [OF assms(2,4)] assms(3) by auto
  then have "readWG (m_sup s) = 0" "e = errClose (m_sup s)"
    using assms(3) by (auto simp: close_finish_def split: if_splits)
  then show ?thesis
    using all_done [OF reachable_inv [OF assms(1)]] n by simp
qed

theorem close_returns_after_shutdown_witness:
  "\<exists>s t. run ref_lib [ReadGet, ClStop, ClSignal, ClDrained, ClDone, Closer (Some EOF), ReadError demo_fail, ReadSignal, ReadDone]
      demo_init = Some s
    \<and> step ref_lib s t \<and> m_close t = CDone (Some EOF) \<and> m_pclosed t \<and> m_reader t = RDone
    \<and> Some EOF = errClose (m_sup t)"
proof -
  obtain s t where s: "run ref_lib [ReadGet, ClStop, ClSignal, ClDrained, ClDone, Closer (Some EOF), ReadError demo_fail, ReadSignal, ReadDone]
      demo_init = Some s"
    "exec ref_lib ClRet s = Some t" "m_close s = CDecr 0" "m_close t = CDone (Some EOF)"
    by (simp add: demo_simps)
  show ?thesis
    using s exec_sound [OF s(2)]
      close_returns_after_shutdown [OF demo_reachable [OF s(1)] exec_sound [OF s(2)] s(3,4)] by blast
qed

text \<open>
  C9: The \<open>Close\<close> of the last connection of a listener that no longer accepts returns only when the
  raw connection has been closed and the read loop has ended, with the error of closing it.
\<close>

theorem last_conn_close_waits:
  assumes "reachable L s" and "step L s t" and "m_kpc s c = KDeleted 0" and "m_kpc t c = KWaited e"
    and "m_close s \<noteq> CIdle"
  shows "m_pclosed s \<and> m_reader s = RDone \<and> e = errClose (m_sup s)"
proof -
  have inv: "sys_inv s" by (rule reachable_inv [OF assms(1)])
  have "conn_wait 0 (m_sup s) = CloseRet e"
    using conn_wait_step [OF assms(2,4)] assms(3) by auto
  moreover have "\<not> accepting (m_sup s)"
    using inv assms(5) by (simp add: sys_inv_def ctl_inv_def)
  ultimately have "readWG (m_sup s) = 0" "e = errClose (m_sup s)"
    by (auto simp: conn_wait_def split: if_splits)
  then show ?thesis using all_done [OF inv] by simp
qed

theorem last_conn_close_waits_witness:
  "\<exists>s t. run ref_lib [ReadGet, ReadPacket demo_read, ReadPush, AccRecv, AccAdd 0, ReadGet, ClStop, ClSignal, ClDrained,
      ClDone, KDecrA 0, KSignalA 0, KDeleteA 0, Closer None, ReadError demo_fail, ReadSignal, ReadDone] demo_init = Some s
    \<and> step ref_lib s t \<and> m_kpc t 0 = KWaited None \<and> m_pclosed s \<and> m_reader s = RDone"
proof -
  obtain s t where s: "run ref_lib [ReadGet, ReadPacket demo_read, ReadPush, AccRecv, AccAdd 0, ReadGet, ClStop, ClSignal,
      ClDrained, ClDone, KDecrA 0, KSignalA 0, KDeleteA 0, Closer None, ReadError demo_fail, ReadSignal, ReadDone] demo_init = Some s"
    "exec ref_lib (KWaitA 0) s = Some t" "m_kpc s 0 = KDeleted 0" "m_kpc t 0 = KWaited None" "m_close s \<noteq> CIdle"
    by (simp add: demo_simps)
  show ?thesis
    using s exec_sound [OF s(2)]
      last_conn_close_waits [OF demo_reachable [OF s(1)] exec_sound [OF s(2)] s(3-5)] by blast
qed

text \<open>
  C22: The order of the two steps of \<open>Accept\<close> leaves a gap: \<open>Accept\<close> counts a connection only after it
  has received it, so a \<open>Close\<close> in between finds no counted connection and the raw connection is
  closed under a connection that \<open>Accept\<close> then returns as open.
\<close>

theorem accept_close_race:
  "\<exists>s. reachable ref_lib s \<and> m_pclosed s \<and> m_user s = [0] \<and> m_kpc s 0 = KOpen
    \<and> \<not> c_doneCh (objs (m_sup s) ! 0) \<and> connWG (m_sup s) = 1"
proof -
  obtain s where s: "run ref_lib [ReadGet, ReadPacket demo_read, ReadPush, AccRecv, ClStop, ClSignal, ClDrained,
      ClDone, Closer None, AccAdd 0] demo_init = Some s"
    "m_pclosed s" "m_user s = [0]" "m_kpc s 0 = KOpen" "\<not> c_doneCh (objs (m_sup s) ! 0)" "connWG (m_sup s) = 1"
    by (simp add: demo_simps)
  then show ?thesis using demo_reachable by blast
qed

end
