(* ===== verification/Sup_Ownership.thy ===== *)
theory Sup_Ownership
  imports Sup_Safety
begin

text \<open>
  Ownership of the packet buffers in every interleaving: a buffer is in one of the pools, in one queued
  packet, or in the hands of one goroutine, and never in two places.  From this and the invariant of
  \<open>Sup_Machine\<close> it follows that no goroutine of a listener panics.
\<close>

section \<open>What the goroutines hold\<close>

definition hand_of :: "receivedPacket \<Rightarrow> nat list" where
  "hand_of p = [the (pkt_data p), the (pkt_oob p)]"

fun reader_hand :: "read_pc \<Rightarrow> nat list" where
  "reader_hand (RBufs b ob) = [ob, b]"
| "reader_hand (RGot c pkt) = [the (pkt_oob pkt), the (pkt_data pkt)]"
| "reader_hand _ = []"

definition in_hand :: "('q, 'd) sys \<Rightarrow> nat list" where
  "in_hand s = reader_hand (m_reader s) @ concat (map hand_of (m_hands s))"

fun reader_full :: "read_pc \<Rightarrow> bool" where
  "reader_full (RGot c pkt) = full_pkt pkt"
| "reader_full _ = True"

definition own_inv :: "('q \<Rightarrow> receivedPacket list) \<Rightarrow> ('q, 'd) sys \<Rightarrow> bool" where
  "own_inv ct s \<longleftrightarrow> buf_inv ct (m_sup s) (in_hand s) \<and> (\<forall>p \<in> set (m_hands s). full_pkt p) \<and> reader_full (m_reader s)"

text \<open>Operations that neither move a buffer nor change the content of a queue.\<close>

definition same_data :: "('q \<Rightarrow> receivedPacket list) \<Rightarrow> ('q, 'd) supConn \<Rightarrow> ('q, 'd) supConn \<Rightarrow> bool" where
  "same_data ct l l' \<longleftrightarrow> bufPool l' = bufPool l \<and> oobPool l' = oobPool l \<and> length (bufs l') = length (bufs l)
     \<and> map (\<lambda>c. ct (c_queue c)) (objs l') = map (\<lambda>c. ct (c_queue c)) (objs l)"

lemma refs_queues: "(\<Sum>c\<leftarrow>objs l. conn_refs ct a c) = (\<Sum>ps\<leftarrow>map (\<lambda>c. ct (c_queue c)) (objs l). \<Sum>p\<leftarrow>ps. pkt_refs p a)"
  by (simp add: conn_refs_def comp_def)

lemma same_data_inv:
  assumes "same_data ct l l'"
  shows "buf_inv ct l' hand = buf_inv ct l hand"
proof -
  have "refs ct l' hand a = refs ct l hand a" for a
    using assms by (simp only: refs_def refs_queues same_data_def)
  moreover have "(\<forall>c \<in> set (objs k). \<forall>p \<in> set (ct (c_queue c)). full_pkt p)
      \<longleftrightarrow> (\<forall>ps \<in> set (map (\<lambda>c. ct (c_queue c)) (objs k)). \<forall>p \<in> set ps. full_pkt p)" for k :: "('a, 'b) supConn"
    by simp
  ultimately show ?thesis
    using assms unfolding buf_inv_def by (simp only: same_data_def)
qed

lemma map_queue_update:
  "ct (c_queue x) = ct (c_queue (xs ! i)) \<Longrightarrow> map (\<lambda>c. ct (c_queue c)) (xs[i := x]) = map (\<lambda>c. ct (c_queue c)) xs"
  by (metis (no_types, lifting) list_update_beyond list_update_id map_update not_le)

lemma buf_inv_hand:
  assumes "buf_inv ct l hand" and "\<And>a. count_list hand' a \<le> count_list hand a"
  shows "buf_inv ct l hand'"
  by (rule buf_inv_mono [OF assms(1)]) (use assms(2) buf_invD(3) [OF assms(1)] in \<open>auto simp: refs_def\<close>)

lemma buf_inv_drop: "buf_inv ct l (h @ hand) \<Longrightarrow> buf_inv ct l hand"
  by (erule buf_inv_hand) simp

lemma own_step:
  assumes "own_inv ct s" and "same_data ct (m_sup s) (m_sup t)"
    and "reader_hand (m_reader t) = reader_hand (m_reader s) \<or> reader_hand (m_reader t) = []"
    and "reader_full (m_reader s) \<Longrightarrow> reader_full (m_reader t)" and "m_hands t = m_hands s"
  shows "own_inv ct t"
proof -
  have "buf_inv ct (m_sup t) (in_hand s)"
    using assms(1) same_data_inv [OF assms(2)] by (simp add: own_inv_def)
  then have "buf_inv ct (m_sup t) (in_hand t)"
    using assms(3,5) buf_inv_drop [of ct "m_sup t" "reader_hand (m_reader s)"] by (auto simp: in_hand_def)
  then show ?thesis
    using assms by (simp add: own_inv_def)
qed

lemma same_data_refl [simp]: "same_data ct l l"
  by (simp add: same_data_def)

lemma same_data_flags [simp]:
  "same_data ct l (l\<lparr>parked := n\<rparr>)" "same_data ct l (l\<lparr>readDoneCh := ch\<rparr>)" "same_data ct l (l\<lparr>readWG := wg\<rparr>)"
  "same_data ct l (close_stop l)"
  by (simp_all add: same_data_def close_stop_def)

lemma same_data_received: "received r b ob l = Ret l' \<Longrightarrow> same_data ct l l'"
  by (auto simp: received_def Let_def go_bind_Ret_iff same_data_def)

lemma same_data_ops:
  "conn_decr c l = Ret l' \<Longrightarrow> same_data ct l l'"
  "conn_signal c l = Ret l' \<Longrightarrow> same_data ct l l'"
  "conn_delete c l = Ret (n, l') \<Longrightarrow> same_data ct l l'"
  "lclose_one c (l\<lparr>acceptCh := cs\<rparr>) = Ret l' \<Longrightarrow> same_data ct l l'"
  "close_signal l = Ret l' \<Longrightarrow> same_data ct l l'"
  "close_done l = Ret l' \<Longrightarrow> same_data ct l l'"
  "closer_goroutine e l = Ret (Some l') \<Longrightarrow> same_data ct l l'"
  "accept_recv l = Some (c, l') \<Longrightarrow> same_data ct l l'"
  "accept_add l = Ret l' \<Longrightarrow> same_data ct l l'"
  "supConn_SetDeadline L t l = (er, l') \<Longrightarrow> same_data ct l l'"
  by (auto simp: conn_decr_def conn_signal_def conn_delete_def lclose_one_def close_signal_def close_done_def
      closer_goroutine_def accept_recv_def accept_add_def supConn_SetDeadline_def go_bind_Ret_iff Let_def
      same_data_def map_queue_update split: option.splits if_splits list.splits)

section \<open>Every step keeps the ownership\<close>

context udp_lib
begin

lemma getSubConn_data:
  assumes "getSubConn L (Some a) buf f l = Ret ((co, isNew, er), l')" and "isListener l" and "buf_inv ct l hand"
  shows "buf_inv ct l' hand"
proof -
  have app: "buf_inv ct (l\<lparr>objs := objs l @ [conn]\<rparr>) hand" if "newSubConn L l (Some a) = Ret conn" for conn
  proof (rule buf_inv_mono [OF assms(3)])
    have e: "ct (c_queue conn) = []"
      using that rq.NewSafe_empty by (auto simp: newSubConn_def split: sum.splits)
    show "refs ct (l\<lparr>objs := objs l @ [conn]\<rparr>) hand x \<le> refs ct l hand x" for x
      by (simp add: refs_def conn_refs_def e)
    show "full_pkt p" if "c \<in> set (objs (l\<lparr>objs := objs l @ [conn]\<rparr>))" "p \<in> set (ct (c_queue c))" for c p
      using that buf_invD(3) [OF assms(3)] e by auto
  qed simp
  from assms(1,2) show ?thesis
  proof (cases rule: getSubConn_listenerE)
    case (new conn)
    have "same_data ct (l\<lparr>objs := objs l @ [conn]\<rparr>) l'"
      by (simp add: new same_data_def)
    then show ?thesis
      using same_data_inv app [OF new(3)] by blast
  qed (use assms(3) app in simp_all)
qed

text \<open>The packets of a closed queue move to the closing goroutine, which gives their buffers back.\<close>

lemma queue_to_hand:
  assumes buf: "buf_inv ct l hand" and i: "i < length (objs l)" and q: "ct q = []"
  shows "buf_inv ct (set_queue i q l) (concat (map hand_of (ct (c_queue (objs l ! i)))) @ hand)"
proof (rule buf_inv_mono [OF buf])
  let ?c = "objs l ! i" and ?c' = "(objs l ! i)\<lparr>c_queue := q\<rparr>"
  have full: "\<forall>p \<in> set (ct (c_queue ?c)). full_pkt p"
    using buf_invD(3) [OF buf nth_mem [OF i]] by blast
  have count: "count_list (concat (map hand_of ps)) a = (\<Sum>p\<leftarrow>ps. pkt_refs p a)" if "\<forall>p \<in> set ps. full_pkt p" for ps a
    using that by (induction ps) (auto simp: hand_of_def pkt_refs_def full_pkt_def)
  have "conn_refs ct a ?c' = 0" for a
    by (simp add: conn_refs_def q)
  then show "refs ct (set_queue i q l) (concat (map hand_of (ct (c_queue ?c))) @ hand) a \<le> refs ct l hand a" for a
    using refs_update_conn [OF i, of "set_queue i q l" ?c' ct hand a] count [OF full, of a]
    by (simp add: set_queue_def refs_def conn_refs_def q)
  show "full_pkt p" if "c \<in> set (objs (set_queue i q l))" "p \<in> set (ct (c_queue c))" for c p
  proof -
    have "c \<in> set (objs l) \<or> c = ?c'"
      using that(1) set_update_subset_insert [of "objs l" i ?c'] by (auto simp: set_queue_def)
    then show ?thesis
      using buf_invD(3) [OF buf] that(2) q by auto
  qed
qed (simp add: set_queue_def)

lemma give_back:
  assumes "buf_inv ct l (concat (map hand_of ps) @ hand)" and "\<forall>p \<in> set ps. full_pkt p"
  shows "buf_inv ct (fold (onQueueClose L) ps l) hand"
  using assms
proof (induction ps arbitrary: l)
  case Nil
  then show ?case by simp
next
  case (Cons p ps)
  obtain a b where p: "pkt_data p = Some a" "pkt_oob p = Some b"
    using Cons.prems(2) by (auto simp: full_pkt_def)
  have "buf_inv ct (putOob L b (putData L a l)) (concat (map hand_of ps) @ hand)"
    using Cons.prems(1) by (intro buf_inv_putOob buf_inv_putData) (simp add: hand_of_def [of p] p)
  then show ?case
    using Cons.IH Cons.prems(2) by (simp add: onQueueClose_def putBuffers_def p)
qed

lemma queue_close_data:
  assumes "buf_inv ct l hand" and "i < length (objs l)" and "conn_queue_close L i e l = (e', l')"
  shows "buf_inv ct l' hand"
proof -
  obtain eb ps q where c: "rq_Close (lib_rq L) (c_queue (objs l ! i)) = (eb, ps, q)"
    by (metis prod_cases3)
  have "ps = ct (c_queue (objs l ! i))" "ct q = []"
    using rq.Close_law [OF c] by simp_all
  then have "buf_inv ct (fold (onQueueClose L) ps (set_queue i q l)) hand"
    using queue_to_hand [OF assms(1,2)] buf_invD(3) [OF assms(1) nth_mem [OF assms(2)]] by (intro give_back) auto
  then show ?thesis
    using assms(3) c by (simp add: conn_queue_close_def)
qed

lemma set_queue_same_data: "ct q = ct (c_queue (objs l ! i)) \<Longrightarrow> same_data ct l (set_queue i q l)"
  by (simp add: same_data_def set_queue_def map_queue_update)

lemma SetDeadline_data: "SetDeadline L i t l = (er, l') \<Longrightarrow> same_data ct l l'"
proof -
  assume d: "SetDeadline L i t l = (er, l')"
  let ?c = "objs l ! i"
  let ?m = "l\<lparr>objs := (objs l)[i := ?c\<lparr>c_writeDeadline := dl_Set (lib_dl L) t (c_writeDeadline ?c)\<rparr>]\<rparr>"
  obtain q where q: "rq_SetPopDeadline (lib_rq L) t (c_queue (objs ?m ! i)) = (er, q)" "l' = set_queue i q ?m"
    using d by (auto simp: SetDeadline_def SetReadDeadline_def SetWriteDeadline_def Let_def split: prod.splits)
  have "same_data ct l ?m"
    by (simp add: same_data_def map_queue_update)
  moreover have "same_data ct ?m l'"
    unfolding q(2) using rq.SetPopDeadline_law [OF q(1)] by (intro set_queue_same_data) simp
  ultimately show ?thesis
    by (simp add: same_data_def)
qed

lemma step_own_inv:
  assumes "step L s t" and "sys_inv s" and "own_inv ct s"
  shows "own_inv ct t"
  using assms
proof (induction rule: step.induct)
  case (read_get s b ob l)
  then show ?case
    using readLoop_buffers_ok(1) [of "m_sup s" b ob l "in_hand s"] by (simp add: own_inv_def in_hand_def)
next
  case (read_packet s b ob r a l co isNew er l')
  have "isListener l"
    using read_packet by (auto simp: sys_inv_def ctl_inv_def dest!: same_ctl_received simp: same_ctl_def)
  moreover have "buf_inv ct l (in_hand s)"
    using read_packet(8) same_data_inv [OF same_data_received [OF read_packet(5)], of ct] by (simp add: own_inv_def)
  ultimately have "buf_inv ct l' (in_hand s)"
    using getSubConn_data read_packet(4,6) by metis
  then show ?case
    using read_packet(1,8) buf_inv_drop [of ct l' "[ob, b]"] by (auto simp: own_inv_def in_hand_def full_pkt_def split: option.splits)
next
  case (read_push s c pkt)
  obtain b ob where d: "pkt_data pkt = Some b" "pkt_oob pkt = Some ob"
    using read_push(1,3) by (auto simp: own_inv_def full_pkt_def)
  then have p: "pkt = \<lparr>pkt_data = Some b, pkt_oob = Some ob, pkt_ecn = pkt_ecn pkt\<rparr>"
    by simp
  have "buf_inv ct (m_sup s) (ob # b # concat (map hand_of (m_hands s)))" "c < length (objs (m_sup s))"
    using read_push d by (simp_all add: own_inv_def in_hand_def sys_inv_def)
  then have "buf_inv ct (pushPacket L c pkt (m_sup s)) (concat (map hand_of (m_hands s)))"
    using pushPacket_buf_inv p by metis
  then show ?case
    using read_push(3) by (simp add: own_inv_def in_hand_def)
next
  case (read_error s b ob r e)
  show ?case
    by (rule own_step [OF read_error(4)]) (simp_all add: same_data_def)
next
  case (u_pop c s now pkt q)
  have i: "c < length (objs (m_sup s))"
    using u_pop table_user by (fastforce simp: sys_inv_def)
  have pop: "ct (c_queue (objs (m_sup s) ! c)) = pkt # ct q"
    using rq.Pop_item [OF u_pop(2)] by simp
  then have "full_pkt pkt"
    using u_pop(4) buf_invD(3) [OF _ nth_mem [OF i]] by (fastforce simp: own_inv_def)
  then obtain a b where "pkt_data pkt = Some a" "pkt_oob pkt = Some b"
    by (auto simp: full_pkt_def)
  from pop_buf_inv [OF _ i pop this] have "buf_inv ct (set_queue c q (m_sup s)) (hand_of pkt @ in_hand s)"
    using u_pop(4) \<open>pkt_data pkt = Some a\<close> \<open>pkt_oob pkt = Some b\<close> by (simp add: own_inv_def hand_of_def)
  then have "buf_inv ct (set_queue c q (m_sup s)) (reader_hand (m_reader s) @ hand_of pkt @ concat (map hand_of (m_hands s)))"
    by (rule buf_inv_hand) (simp add: in_hand_def)
  then show ?case
    using u_pop(4) \<open>full_pkt pkt\<close> by (simp add: own_inv_def in_hand_def)
next
  case (u_copy pkt s p oob res l)
  obtain a b where ab: "pkt_data pkt = Some a" "pkt_oob pkt = Some b" and l: "l = putOob L b (putData L a (m_sup s))"
    using u_copy(2) by (auto simp: read_copy_def split: option.splits prod.splits)
  let ?rest = "reader_hand (m_reader s) @ concat (map hand_of (remove1 pkt (m_hands s)))"
  have cnt: "count_list (concat (map hand_of (remove1 x xs))) y + count_list (hand_of x) y = count_list (concat (map hand_of xs)) y"
    if "x \<in> set xs" for x xs y
    using that by (induction xs) auto
  have "buf_inv ct (m_sup s) (a # b # ?rest)"
  proof (rule buf_inv_hand)
    show "buf_inv ct (m_sup s) (in_hand s)"
      using u_copy(4) by (simp add: own_inv_def)
    show "count_list (a # b # ?rest) y \<le> count_list (in_hand s) y" for y
      using cnt [OF u_copy(1), of y] by (simp add: in_hand_def hand_of_def [of pkt] ab split: if_splits)
  qed
  then have "buf_inv ct l ?rest"
    unfolding l by (intro buf_inv_putOob buf_inv_putData)
  then show ?case
    using u_copy(4) by (auto simp: own_inv_def in_hand_def dest: notin_set_remove1)
next
  case (k_queue c s e e' l)
  have "c < length (objs (m_sup s))"
    using k_queue table_user by (fastforce simp: sys_inv_def)
  then show ?case
    using k_queue queue_close_data by (auto simp: own_inv_def in_hand_def)
next
  case (u_error c s now er q)
  show ?case
    by (rule own_step [OF u_error(4)]) (use rq.Pop_err [OF u_error(2)] in \<open>simp_all add: set_queue_same_data\<close>)
next
  case (u_deadline c s t er l)
  show ?case
    by (rule own_step [OF u_deadline(4)]) (simp_all add: SetDeadline_data [OF u_deadline(2)])
next
  case (acc_wake s c l)
  show ?case
    by (rule own_step [OF acc_wake(4)]) (use same_data_ops(8) [OF acc_wake(2)] in \<open>simp_all add: same_data_def\<close>)
qed (erule own_step; auto intro: same_data_ops)+

end

section \<open>Reachable states\<close>

lemma own_inv_init: "own_inv ct (sys_init L caps la ra filt backlog)"
  using wrapConn_inv(2) by (simp add: own_inv_def sys_init_def in_hand_def)

lemma reachable_own:
  assumes "udp_lib L ct cp cl it" and "reachable L s"
  shows "own_inv ct s"
proof -
  have inv: "step_invariant (step L) (\<lambda>s. sys_inv s \<and> own_inv ct s)"
    by unfold_locales (use step_sys_inv udp_lib.step_own_inv [OF assms(1)] in blast)
  show ?thesis
    using assms(2) step_invariant.steps_inv [OF inv] sys_init_inv own_inv_init unfolding reachable_def by blast
qed

text \<open>What \<open>ReadPacket\<close> documents of its counts.\<close>

definition counts_within :: "raw_read \<Rightarrow> bool" where
  "counts_within r \<longleftrightarrow> 0 \<le> rr_n r \<and> rr_n r \<le> int (length (rr_b r)) \<and> 0 \<le> rr_oobN r \<and> rr_oobN r \<le> int (length (rr_oob r))"

text \<open>
  A goroutine panics when the call it is about to make does: one rule for every call of the code that
  can panic, with the conditions under which the goroutine makes it.
\<close>

inductive panics :: "('q, 'd) lib \<Rightarrow> ('q, 'd) sys \<Rightarrow> bool" for L where
  p_slice: "m_reader s = RBufs b ob \<Longrightarrow> rr_err r = None \<Longrightarrow> counts_within r \<Longrightarrow> received r b ob (m_sup s) = Panic x \<Longrightarrow> panics L s"
| p_lookup: "m_reader s = RBufs b ob \<Longrightarrow> received r b ob (m_sup s) = Ret l \<Longrightarrow>
    getSubConn L (Some a) (bufs l ! b) True l = Panic x \<Longrightarrow> panics L s"
| p_read_signal: "m_reader s = RErr \<Longrightarrow> chan_close (readDoneCh (m_sup s)) = Panic x \<Longrightarrow> panics L s"
| p_read_done: "m_reader s = RSignalled \<Longrightarrow> wg_done (readWG (m_sup s)) = Panic x \<Longrightarrow> panics L s"
| p_accept: "c \<in> set (m_pending s) \<Longrightarrow> accept_add (m_sup s) = Panic x \<Longrightarrow> panics L s"
| p_signal: "m_close s = CStopped \<Longrightarrow> close_signal (m_sup s) = Panic x \<Longrightarrow> panics L s"
| p_drain: "m_close s = CDraining \<Longrightarrow> acceptCh (m_sup s) = c # cs \<Longrightarrow>
    lclose_one c ((m_sup s)\<lparr>acceptCh := cs\<rparr>) = Panic x \<Longrightarrow> panics L s"
| p_close_done: "m_close s = CDrained n \<Longrightarrow> close_done (m_sup s) = Panic x \<Longrightarrow> panics L s"
| p_closer: "\<not> m_pclosed s \<Longrightarrow> closer_goroutine e (m_sup s) = Panic x \<Longrightarrow> panics L s"
| p_decr: "c \<in> set (m_user s) \<Longrightarrow> m_kpc s c = KOpen \<Longrightarrow> conn_decr c (m_sup s) = Panic x \<Longrightarrow> panics L s"
| p_conn_signal: "c \<in> set (m_user s) \<Longrightarrow> m_kpc s c = KDecr \<Longrightarrow> conn_signal c (m_sup s) = Panic x \<Longrightarrow> panics L s"
| p_delete: "c \<in> set (m_user s) \<Longrightarrow> m_kpc s c = KSignalled \<Longrightarrow> conn_delete c (m_sup s) = Panic x \<Longrightarrow> panics L s"
| p_copy: "pkt \<in> set (m_hands s) \<Longrightarrow> read_copy L pkt p oob (m_sup s) = Panic x \<Longrightarrow> panics L s"

inductive_cases panicsE: "panics L s"

text \<open>The calls on the control state succeed.\<close>

lemma listed_conn:
  assumes "sys_inv s" and "c \<in> set (acceptCh (m_sup s)) \<union> set (m_pending s) \<union> set (m_user s)"
  shows "c < length (objs (m_sup s))" and "c_rAddr (objs (m_sup s) ! c) \<noteq> None"
    and "c_doneCh (objs (m_sup s) ! c) \<longleftrightarrow> m_kpc s c \<notin> {KOpen, KDecr}"
    and "c \<notin> set (m_user s) \<Longrightarrow> m_kpc s c = KOpen"
proof -
  have tab: "table_inv (conns (m_sup s)) (map core (objs (m_sup s))) (acceptCh (m_sup s)) (m_pending s) (m_user s) (m_kpc s)"
    using assms(1) by (simp add: sys_inv_def)
  have c: "c < length (map core (objs (m_sup s))) \<and> fst (map core (objs (m_sup s)) ! c) \<noteq> None
      \<and> snd (map core (objs (m_sup s)) ! c) = (m_kpc s c \<notin> {KOpen, KDecr}, m_kpc s c \<noteq> KOpen)"
    using tab assms(2) unfolding table_inv_def by blast
  then show "c < length (objs (m_sup s))" "c_rAddr (objs (m_sup s) ! c) \<noteq> None"
    "c_doneCh (objs (m_sup s) ! c) \<longleftrightarrow> m_kpc s c \<notin> {KOpen, KDecr}"
    by (auto simp: core_def)
  show "c \<notin> set (m_user s) \<Longrightarrow> m_kpc s c = KOpen"
    using tab by (simp add: table_inv_def)
qed

lemma waiting_not_user: "sys_inv s \<Longrightarrow> c \<in> set (acceptCh (m_sup s)) \<Longrightarrow> c \<notin> set (m_user s)"
  by (auto simp: sys_inv_def table_inv_def)

lemma calls_succeed:
  assumes inv: "sys_inv s"
  shows "m_reader s = RErr \<Longrightarrow> \<exists>x. chan_close (readDoneCh (m_sup s)) = Ret x"
    and "m_reader s = RSignalled \<Longrightarrow> \<exists>x. wg_done (readWG (m_sup s)) = Ret x"
    and "\<exists>x. accept_add (m_sup s) = Ret x"
    and "m_close s = CStopped \<Longrightarrow> \<exists>x. close_signal (m_sup s) = Ret x"
    and "m_close s = CDrained n \<Longrightarrow> \<exists>x. close_done (m_sup s) = Ret x"
    and "\<not> m_pclosed s \<Longrightarrow> \<exists>x. closer_goroutine e (m_sup s) = Ret x"
    and "acceptCh (m_sup s) = c # cs \<Longrightarrow> \<exists>x. lclose_one c ((m_sup s)\<lparr>acceptCh := cs\<rparr>) = Ret x"
    and "d \<in> set (m_user s) \<Longrightarrow> m_kpc s d = KOpen \<Longrightarrow> \<exists>x. conn_decr d (m_sup s) = Ret x"
    and "d \<in> set (m_user s) \<Longrightarrow> m_kpc s d = KDecr \<Longrightarrow> \<exists>x. conn_signal d (m_sup s) = Ret x"
    and "d \<in> set (m_user s) \<Longrightarrow> \<exists>x. conn_delete d (m_sup s) = Ret x"
proof -
  note c = inv_ctl [OF inv, unfolded ctl_inv_def]
  have open': "0 < length (open_conns s)" if "d \<in> set (m_user s)" "m_kpc s d = KOpen"
    using that by (auto simp: open_conns_def filter_empty_conv)
  show "m_reader s = RErr \<Longrightarrow> \<exists>x. chan_close (readDoneCh (m_sup s)) = Ret x"
    "m_reader s = RSignalled \<Longrightarrow> \<exists>x. wg_done (readWG (m_sup s)) = Ret x"
    "\<exists>x. accept_add (m_sup s) = Ret x"
    "m_close s = CStopped \<Longrightarrow> \<exists>x. close_signal (m_sup s) = Ret x"
    "m_close s = CDrained n \<Longrightarrow> \<exists>x. close_done (m_sup s) = Ret x"
    "\<not> m_pclosed s \<Longrightarrow> \<exists>x. closer_goroutine e (m_sup s) = Ret x"
    using c by (auto simp: chan_close_def wg_add_def accept_add_def close_signal_def close_done_def closer_goroutine_def)
  show "\<exists>x. lclose_one c ((m_sup s)\<lparr>acceptCh := cs\<rparr>) = Ret x" if "acceptCh (m_sup s) = c # cs"
    using listed_conn [OF inv, of c] waiting_not_user [OF inv, of c] that
    by (auto simp: lclose_one_def Let_def chan_close_def)
  show "\<exists>x. conn_decr d (m_sup s) = Ret x" if "d \<in> set (m_user s)" "m_kpc s d = KOpen"
    using c open' [OF that] by (auto simp: conn_decr_def wg_add_def)
  show "\<exists>x. conn_signal d (m_sup s) = Ret x" if "d \<in> set (m_user s)" "m_kpc s d = KDecr"
    using listed_conn [OF inv, of d] that by (auto simp: conn_signal_def chan_close_def)
  show "\<exists>x. conn_delete d (m_sup s) = Ret x" if "d \<in> set (m_user s)"
    using listed_conn [OF inv, of d] that by (auto simp: conn_delete_def Let_def)
qed

lemma data_calls_succeed:
  assumes "udp_lib L ct cp cl it" and own: "own_inv ct s"
  shows "m_reader s = RBufs b ob \<Longrightarrow> counts_within r \<Longrightarrow> \<exists>l. received r b ob (m_sup s) = Ret l"
    and "pkt \<in> set (m_hands s) \<Longrightarrow> \<exists>x. read_copy L pkt p oob (m_sup s) = Ret x"
    and "\<exists>x. getSubConn L a buf f l = Ret x"
proof -
  show "\<exists>l. received r b ob (m_sup s) = Ret l" if "m_reader s = RBufs b ob" "counts_within r"
  proof -
    have buf: "buf_inv ct (m_sup s) (ob # b # concat (map hand_of (m_hands s)))"
      using own that(1) by (simp add: own_inv_def in_hand_def)
    have "ob \<noteq> b" "b < length (bufs (m_sup s))" "ob < length (bufs (m_sup s))"
      using udp_lib.hand_distinct [OF assms(1) buf] udp_lib.hand_bound [OF assms(1) buf] by auto
    then show ?thesis
      using that(2) by (simp add: received_def Let_def slice_to_def counts_within_def)
  qed
  show "\<exists>x. read_copy L pkt p oob (m_sup s) = Ret x" if "pkt \<in> set (m_hands s)"
    using own that by (auto simp: own_inv_def full_pkt_def read_copy_def split: prod.splits)
  show "\<exists>x. getSubConn L a buf f l = Ret x"
    using udp_lib.newSubConn_ok [OF assms(1), of l a]
    by (auto simp: getSubConn_def Let_def split: option.splits if_splits)
qed

section \<open>Properties\<close>

text \<open>
  C3: In every interleaving of a listener's goroutines no packet buffer has two owners: it is in a pool, in
  one packet of one queue, or in the hands of one goroutine, so that a buffer the read loop fills or a
  \<open>Read\<close> copies from is never given out at the same time; and every buffer owned by someone exists.
\<close>

theorem buffers_owned_once:
  assumes "udp_lib L ct cp cl it" and "reachable L s"
  shows "refs ct (m_sup s) (in_hand s) a \<le> 1 \<and> (0 < refs ct (m_sup s) (in_hand s) a \<longrightarrow> a < length (bufs (m_sup s)))"
  using reachable_own [OF assms] by (simp add: own_inv_def buf_inv_def)

theorem buffers_owned_once_witness:
  "\<exists>s. run ref_lib [ReadGet, ReadPacket demo_read, ReadPush] demo_init = Some s
    \<and> refs bq_items (m_sup s) (in_hand s) 0 = 1"
proof -
  obtain s where s: "run ref_lib [ReadGet, ReadPacket demo_read, ReadPush] demo_init = Some s"
    "refs bq_items (m_sup s) (in_hand s) 0 \<ge> 1"
    by (simp add: demo_simps refs_def conn_refs_def pkt_refs_def in_hand_def)
  then show ?thesis
    using buffers_owned_once [OF ref.udp_lib_axioms demo_reachable [OF s(1)], of 0] by (intro exI [of _ s]) simp
qed



end
