(* ===== verification/Sup_Liveness.thy ===== *)
theory Sup_Liveness
  imports Sup_Ownership
begin

text \<open>
  A listener can always be shut down: from every reachable state some continuation of the run ends with
  \<open>Close\<close> returned, the raw connection closed and the read loop ended.  The continuation needs only that
  the callers of \<open>Accept\<close> get to count what they received, that accepted connections are closed, and that
  the raw connection answers a pending read with an error.
\<close>

section \<open>The remaining work\<close>

fun close_rank :: "close_pc \<Rightarrow> nat" where
  "close_rank CIdle = 5"
| "close_rank CStopped = 4"
| "close_rank CDraining = 3"
| "close_rank (CDrained n) = 2"
| "close_rank (CDecr n) = 1"
| "close_rank (CDone e) = 0"

fun reader_rank :: "read_pc \<Rightarrow> nat" where
  "reader_rank (RGot c pkt) = 5"
| "reader_rank RIdle = 4"
| "reader_rank (RBufs b ob) = 3"
| "reader_rank RErr = 2"
| "reader_rank RSignalled = 1"
| "reader_rank RDone = 0"

definition work :: "('q, 'd) sys \<Rightarrow> nat" where
  "work s = close_rank (m_close s) + length (acceptCh (m_sup s)) + 2 * length (m_pending s) + length (open_conns s)
     + reader_rank (m_reader s) + (if m_pclosed s then 0 else 1)"

lemma work_zero: "work s = 0 \<Longrightarrow> (\<exists>e. m_close s = CDone e) \<and> m_pclosed s \<and> m_reader s = RDone"
  by (cases "m_close s"; cases "m_reader s") (auto simp: work_def split: if_splits)

section \<open>There is always a step that reduces it\<close>

lemma reader_progress:
  assumes inv: "sys_inv s" and "m_reader s \<noteq> RDone"
  shows "\<exists>t. step L s t \<and> work t < work s"
proof (cases "m_reader s")
  case RIdle
  obtain b ob l where get: "readLoop_buffers L (m_sup s) = (b, ob, l)"
    by (metis prod_cases3)
  show ?thesis
    using step.read_get [OF RIdle get] same_ctl_buffers [OF get]
    by (intro exI conjI) (assumption, simp add: work_def RIdle open_conns_def same_ctl_def)
next
  case (RBufs b ob)
  let ?r = "\<lparr>rr_n = 0, rr_oobN = 0, rr_ecn = 0, rr_addr = None, rr_err = Some EOF, rr_b = bufs (m_sup s) ! b, rr_oob = bufs (m_sup s) ! ob\<rparr>"
  show ?thesis
    using step.read_error [OF RBufs, of ?r EOF L] by (intro exI conjI) (auto simp: work_def RBufs open_conns_def)
next
  case (RGot c pkt)
  show ?thesis
    using step.read_push [OF RGot, of L] by (intro exI conjI) (assumption, simp add: work_def RGot open_conns_def)
next
  case RErr
  then obtain ch where "chan_close (readDoneCh (m_sup s)) = Ret ch"
    using calls_succeed(1) [OF inv] by blast
  from step.read_signal [OF RErr this] show ?thesis
    by (intro exI conjI) (assumption, simp add: work_def RErr open_conns_def)
next
  case RSignalled
  then obtain wg where "wg_done (readWG (m_sup s)) = Ret wg"
    using calls_succeed(2) [OF inv] by blast
  from step.read_done [OF RSignalled this] show ?thesis
    by (intro exI conjI) (assumption, simp add: work_def RSignalled open_conns_def)
qed (use assms(2) in simp)

lemma accept_progress:
  assumes inv: "sys_inv s" and c: "c \<in> set (m_pending s)"
  shows "\<exists>t. step L s t \<and> work t < work s"
proof -
  obtain l where l: "accept_add (m_sup s) = Ret l"
    using calls_succeed(3) [OF inv] by blast
  then have ch: "acceptCh l = acceptCh (m_sup s)"
    by (auto simp: accept_add_def go_bind_Ret_iff)
  have "length (filter (\<lambda>d. m_kpc s d = KOpen) (c # m_user s)) \<le> Suc (length (open_conns s))"
    by (simp add: open_conns_def)
  moreover have "Suc (length (remove1 c (m_pending s))) = length (m_pending s)"
    using c by (simp add: length_remove1) (metis Suc_pred length_pos_if_in_set)
  ultimately show ?thesis
    using step.acc_add [OF c l] ch by (intro exI conjI) (assumption, simp add: work_def open_conns_def)
qed

lemma conn_progress:
  assumes inv: "sys_inv s" and c: "c \<in> set (open_conns s)"
  shows "\<exists>t. step L s t \<and> work t < work s"
proof -
  have c: "c \<in> set (m_user s)" "m_kpc s c = KOpen" and dis: "distinct (m_user s)"
    using c inv by (auto simp: open_conns_def sys_inv_def table_inv_def)
  obtain l where l: "conn_decr c (m_sup s) = Ret l"
    using calls_succeed(8) [OF inv c] by blast
  then have "acceptCh l = acceptCh (m_sup s)"
    by (auto simp: conn_decr_def go_bind_Ret_iff)
  then show ?thesis
    using step.k_decr [OF c l, of L] open_conns_close [OF dis c, of KDecr]
    by (intro exI conjI) (assumption, simp add: work_def open_conns_def)
qed

lemma closer_progress:
  assumes inv: "sys_inv s" and idle: "open_conns s = []" "m_reader s = RDone" and "past (m_close s)" and "\<not> m_pclosed s" "m_pending s = []"
  shows "\<exists>t. step L s t \<and> work t < work s"
proof -
  have "connWG (m_sup s) = 0" "readWG (m_sup s) = 1"
    using inv_ctl [OF inv, unfolded ctl_inv_def] assms by simp_all
  then obtain l where l: "closer_goroutine None (m_sup s) = Ret (Some l)" "acceptCh l = acceptCh (m_sup s)"
    by (simp add: closer_goroutine_def wg_add_def)
  show ?thesis
    using step.closer [OF assms(5) l(1), of L] l(2) assms(5) by (intro exI conjI) (assumption, simp add: work_def open_conns_def)
qed

lemma drain_progress:
  assumes inv: "sys_inv s" and d: "m_close s = CDraining"
  shows "\<exists>t. step L s t \<and> work t < work s"
proof (cases "acceptCh (m_sup s)")
  case Nil
  show ?thesis
    using step.cl_drained [OF d Nil, of L] by (intro exI conjI) (assumption, simp add: work_def d open_conns_def)
next
  case (Cons x xs)
  then obtain l where l: "lclose_one x ((m_sup s)\<lparr>acceptCh := xs\<rparr>) = Ret l"
    using calls_succeed(7) [OF inv] d by blast
  then have "acceptCh l = xs"
    by (auto simp: lclose_one_def Let_def go_bind_Ret_iff split: option.splits)
  then show ?thesis
    using step.cl_drain [OF d Cons l, of L] Cons by (intro exI conjI) (assumption, simp add: work_def open_conns_def)
qed

lemma close_progress:
  assumes inv: "sys_inv s" and idle: "open_conns s = []" "m_reader s = RDone" and more: "0 < work s" "m_pending s = []"
  shows "\<exists>t. step L s t \<and> work t < work s"
proof -
  note c = inv_ctl [OF inv, unfolded ctl_inv_def]
  note closer = closer_progress [OF inv idle _ _ more(2)]
  show ?thesis
  proof (cases "m_close s")
    case CIdle
    show ?thesis
      using step.cl_stop [OF CIdle, of L] by (intro exI conjI) (assumption, simp add: work_def CIdle open_conns_def close_stop_def)
  next
    case CStopped
    then obtain l where l: "close_signal (m_sup s) = Ret l"
      using calls_succeed(4) [OF inv] by blast
    then have "acceptCh l = acceptCh (m_sup s)"
      by (auto simp: close_signal_def go_bind_Ret_iff)
    then show ?thesis
      using step.cl_signal [OF CStopped l, of L] by (intro exI conjI) (assumption, simp add: work_def CStopped open_conns_def)
  next
    case CDraining
    then show ?thesis by (rule drain_progress [OF inv])
  next
    case (CDrained n)
    then obtain l where l: "close_done (m_sup s) = Ret l"
      using calls_succeed(5) [OF inv] by blast
    then have "acceptCh l = acceptCh (m_sup s)"
      by (auto simp: close_done_def go_bind_Ret_iff)
    then show ?thesis
      using step.cl_done [OF CDrained l, of L] by (intro exI conjI) (assumption, simp add: work_def CDrained open_conns_def)
  next
    case (CDecr n)
    show ?thesis
    proof (cases "m_pclosed s")
      case True
      then have "readWG (m_sup s) = 0"
        using c idle(2) by simp
      then have "close_finish n (m_sup s) = CloseRet (if n = 0 then errClose (m_sup s) else None)"
        by (simp add: close_finish_def)
      from step.cl_ret [OF CDecr this, of L] show ?thesis
        by (intro exI conjI) (assumption, simp add: work_def CDecr open_conns_def)
    qed (use closer CDecr in simp)
  next
    case (CDone e)
    then have "\<not> m_pclosed s"
      using more idle c by (auto simp: work_def split: if_splits)
    then show ?thesis
      using closer CDone by simp
  qed
qed

lemma progress:
  assumes "sys_inv s" and "0 < work s"
  shows "\<exists>t. step L s t \<and> work t < work s"
proof (cases "m_reader s = RDone \<and> m_pending s = [] \<and> open_conns s = []")
  case True
  then show ?thesis using close_progress [OF assms(1) _ _ assms(2)] by blast
next
  case False
  then consider "m_reader s \<noteq> RDone" | c where "c \<in> set (m_pending s)" | c where "c \<in> set (open_conns s)"
    by (metis list.set_intros(1) neq_Nil_conv)
  then show ?thesis
    using reader_progress accept_progress conn_progress assms(1) by cases blast+
qed

lemma shutdown_run: "sys_inv s \<Longrightarrow> \<exists>t. steps L s t \<and> work t = 0"
proof (induction "work s" arbitrary: s rule: less_induct)
  case less
  show ?case
  proof (cases "work s = 0")
    case False
    then obtain t where t: "step L s t" "work t < work s"
      using progress [OF less.prems, of L] by auto
    then obtain u where "steps L t u" "work u = 0"
      using less.hyps [OF t(2) step_sys_inv [OF t(1) less.prems]] by blast
    then show ?thesis
      using t(1) by (meson converse_rtranclp_into_rtranclp)
  qed auto
qed

section \<open>Properties\<close>

text \<open>
  C7: A listener is never stuck: from every reachable state, whatever its callers of \<open>Accept\<close>, \<open>Read\<close> and
  \<open>Close\<close> have done so far, some continuation makes \<open>supConn.Close\<close> return, with the raw connection
  closed and the read loop ended.
\<close>

theorem shutdown_possible:
  assumes "reachable L s"
  shows "\<exists>t e. steps L s t \<and> m_close t = CDone e \<and> m_pclosed t \<and> m_reader t = RDone"
  using shutdown_run [OF reachable_inv [OF assms], of L] work_zero by blast

theorem shutdown_possible_witness:
  "\<exists>s. run ref_lib [ReadGet, ReadPacket demo_read, AccRecv, ClStop, ClSignal, ClDrained] demo_init = Some s \<and> m_close s = CDrained 1
    \<and> (\<exists>t e. steps ref_lib s t \<and> m_close t = CDone e \<and> m_pclosed t \<and> m_reader t = RDone)"
proof -
  obtain s where s: "run ref_lib [ReadGet, ReadPacket demo_read, AccRecv, ClStop, ClSignal, ClDrained] demo_init = Some s"
    "m_close s = CDrained 1"
    by (simp add: demo_simps)
  then show ?thesis
    using shutdown_possible [OF demo_reachable [OF s(1)]] by blast
qed

end
