(* ===== verification/Raw_Env.thy ===== *)
theory Raw_Env
  imports Udp_Types
begin

text \<open>
  What the raw layer takes from its surroundings: the logger of \<open>log/log.go\<close>, and the constants that
  the build tags choose for each operating system.
\<close>

section \<open>Logging (log/log.go)\<close>

datatype level = DebugLevel | InfoLevel | WarnLevel | PanicLevel

text \<open>
  The default logger is a package variable: \<open>None\<close> before \<open>SetDefaultLogger\<close>.  A logger may itself
  panic or end the process.  What is printed is not part of the model.
\<close>

type_synonym logger = "level \<Rightarrow> string \<Rightarrow> unit go"

record log_state =
  defaultLogger :: "logger option"

definition SetDefaultLogger :: "logger option \<Rightarrow> log_state \<Rightarrow> log_state" where
  "SetDefaultLogger lg s = s\<lparr>defaultLogger := lg\<rparr>"

definition DefaultLogger :: "log_state \<Rightarrow> logger option" where
  "DefaultLogger s = defaultLogger s"

definition Log :: "log_state \<Rightarrow> level \<Rightarrow> string \<Rightarrow> unit go" where
  "Log s lv msg =
     go_bind (case defaultLogger s of None \<Rightarrow> Ret () | Some lg \<Rightarrow> lg lv msg) (\<lambda>_.
       if lv = PanicLevel then Exit 1 else Ret ())"

text \<open>A logger that returns from every call.\<close>

definition quiet :: "log_state \<Rightarrow> bool" where
  "quiet s \<longleftrightarrow> (case defaultLogger s of None \<Rightarrow> True | Some lg \<Rightarrow> \<forall>lv msg. lg lv msg = Ret ())"

lemma Log_quiet [simp]: "quiet s \<Longrightarrow> Log s lv msg = (if lv = PanicLevel then Exit 1 else Ret ())"
  by (auto simp: Log_def quiet_def split: option.splits)

text \<open>Logging at panic level never returns, whatever the logger does.\<close>

lemma Log_panic: "Log s PanicLevel msg \<noteq> Ret x"
  by (cases "case defaultLogger s of None \<Rightarrow> Ret () | Some lg \<Rightarrow> lg PanicLevel msg") (auto simp: Log_def)

lemma Log_panic_bind: "go_bind (Log s PanicLevel msg) f \<noteq> Ret x"
  using Log_panic [of s msg] by (cases "Log s PanicLevel msg") auto

section \<open>Platform constants\<close>

text \<open>
  The socket option and protocol numbers, and the constants of \<open>sys_conn_helper_<os>.go\<close>.
\<close>

record platform =
  is_linux :: bool
  IPPROTO_IP :: int
  IPPROTO_IPV6 :: int
  IPPROTO_UDP :: int
  IP_TOS :: int
  IPV6_TCLASS :: int
  UDP_SEGMENT :: int
  msgTypeIPTOS :: int
  ECNIPv4DataLen :: nat
  batchSize :: nat

definition linux :: platform where
  "linux = \<lparr>is_linux = True, IPPROTO_IP = 0, IPPROTO_IPV6 = 41, IPPROTO_UDP = 17, IP_TOS = 1, IPV6_TCLASS = 67,
     UDP_SEGMENT = 103, msgTypeIPTOS = 1, ECNIPv4DataLen = 1, batchSize = 8\<rparr>"

definition darwin :: platform where
  "darwin = \<lparr>is_linux = False, IPPROTO_IP = 0, IPPROTO_IPV6 = 41, IPPROTO_UDP = 17, IP_TOS = 3, IPV6_TCLASS = 36,
     UDP_SEGMENT = 0, msgTypeIPTOS = 27, ECNIPv4DataLen = 4, batchSize = 1\<rparr>"

definition freebsd :: platform where
  "freebsd = \<lparr>is_linux = False, IPPROTO_IP = 0, IPPROTO_IPV6 = 41, IPPROTO_UDP = 17, IP_TOS = 3, IPV6_TCLASS = 61,
     UDP_SEGMENT = 0, msgTypeIPTOS = 68, ECNIPv4DataLen = 1, batchSize = 8\<rparr>"

text \<open>What the generic code needs of a platform.\<close>

definition int32 :: "int \<Rightarrow> bool" where
  "int32 x \<longleftrightarrow> - (2 ^ 31) \<le> x \<and> x < 2 ^ 31"

definition platform_ok :: "platform \<Rightarrow> bool" where
  "platform_ok P \<longleftrightarrow> 0 < ECNIPv4DataLen P \<and> 0 < batchSize P \<and> batchSize P < 256
     \<and> ECNIPv4DataLen P < 2 ^ 16 \<and> int32 (IPPROTO_IP P) \<and> int32 (IPPROTO_IPV6 P) \<and> int32 (IPPROTO_UDP P)
     \<and> int32 (IP_TOS P) \<and> int32 (IPV6_TCLASS P) \<and> int32 (UDP_SEGMENT P)
     \<and> IPPROTO_IP P \<noteq> IPPROTO_IPV6 P \<and> IPPROTO_UDP P \<noteq> IPPROTO_IP P \<and> IPPROTO_UDP P \<noteq> IPPROTO_IPV6 P"

lemma platforms_ok [simp]: "platform_ok linux" "platform_ok darwin" "platform_ok freebsd"
  by (simp_all add: platform_ok_def int32_def linux_def darwin_def freebsd_def)

definition MaxPacketBufferSize :: nat where "MaxPacketBufferSize = 1452"
definition ecnMask :: byte where "ecnMask = 3"
definition oobBufferSize :: nat where "oobBufferSize = 128"

end
