(* ===== verification/Kernel_Helpers.thy ===== *)
theory Kernel_Helpers
  imports Raw_Env
begin

text \<open>
  The helpers of \<open>sys_conn_helper_<os>.go\<close> and \<open>sys_conn_df_<os>.go\<close> that compute on strings, errors and
  bytes: the version of the kernel from the release string of \<open>uname\<close> on Linux and macOS, the switches
  read from the environment, the classification of errors, and the parsing of packet info.  The system
  calls that need a socket are in \<open>Sock_Setup\<close>.
\<close>

section \<open>Decimal numbers\<close>

text \<open>The digits are bytes; \<open>ascii\<close> gives the bytes of a string.\<close>

definition is_digit :: "byte \<Rightarrow> bool" where
  "is_digit c \<longleftrightarrow> 48 \<le> c \<and> c \<le> 57"

definition ascii :: "string \<Rightarrow> byte list" where
  "ascii s = map of_char s"

definition num10 :: "nat \<Rightarrow> byte list \<Rightarrow> nat" where
  "num10 = foldl (\<lambda>v c. v * 10 + (unat c - 48))"

lemma num10_simps [simp]:
  "num10 v [] = v" "num10 v (c # cs) = num10 (v * 10 + (unat c - 48)) cs"
  "num10 v (cs @ ds) = num10 (num10 v cs) ds"
  by (simp_all add: num10_def)

lemma ascii_simps [simp]: "ascii [] = []" "ascii (c # cs) = of_char c # ascii cs" "ascii (s @ t) = ascii s @ ascii t"
  by (simp_all add: ascii_def)

lemma of_char_byte: "n < 256 \<Longrightarrow> (of_char (char_of n :: char) :: byte) = word_of_nat n"
  by (metis char_of_mod_256 mod_less of_char_of of_nat_of_char)

lemma digit_byte: "n < 10 \<Longrightarrow> is_digit (word_of_nat (48 + n)) \<and> unat (word_of_nat (48 + n) :: byte) = 48 + n"
proof -
  assume n: "n < 10"
  then have u: "unat (word_of_nat (48 + n) :: byte) = 48 + n"
    by (simp only: unat_of_nat) simp
  show ?thesis
    using n u by (simp add: is_digit_def word_le_nat_alt)
qed

lemma num10_digits10: "(\<forall>c \<in> set (ascii (digits10 n)). is_digit c) \<and> num10 0 (ascii (digits10 n)) = n"
proof (induction n rule: digits10.induct)
  case (1 n)
  have d: "of_char (char_of (48 + n mod 10) :: char) = (word_of_nat (48 + n mod 10) :: byte)"
    by (rule of_char_byte) (simp add: less_trans [OF mod_less_divisor])
  show ?case
  proof (cases "n < 10")
    case True
    then show ?thesis
      using digit_byte [of n] of_char_byte [of "48 + n"] by (subst (1 2) digits10.simps) simp
  next
    case False
    then show ?thesis
      using 1 d digit_byte [of "n mod 10"] by (subst (1 2) digits10.simps) auto
  qed
qed

lemmas digits10_digits = num10_digits10 [THEN conjunct1, rule_format]
lemmas digits10_value = num10_digits10 [THEN conjunct2]

section \<open>The kernel version on Linux (sys\_conn\_helper\_linux.go)\<close>

text \<open>
  \<open>uname.Release\<close> is an array of 65 bytes, padded with zeros.  The comparison with the digits does not
  depend on the signedness of its element type.  Go's \<open>int\<close> is a 64-bit word.  \<open>break\<close> leaves the loop
  once both values are set, so the index is always in range.
\<close>

fun kv_loop :: "byte list \<Rightarrow> 64 word list \<Rightarrow> 64 word \<Rightarrow> nat \<Rightarrow> 64 word list" where
  "kv_loop [] values value vi = values"
| "kv_loop (c # cs) values value vi =
     (if is_digit c then kv_loop cs values (value * 10 + ucast (c - 48)) vi
      else
        let values = values[vi := value]; vi = vi + 1 in
        if length values \<le> vi then values else kv_loop cs values 0 vi)"

definition kernelVersion :: "err + byte list \<Rightarrow> 64 word \<times> 64 word" where
  "kernelVersion uname =
     (case uname of
        Inl e \<Rightarrow> (0, 0)
      | Inr release \<Rightarrow> (let values = kv_loop release [0, 0] 0 0 in (values ! 0, values ! 1)))"

text \<open>\<open>init\<close> keeps the major version; it is compared as a signed number.\<close>

definition kernelVersionMajor :: "err + byte list \<Rightarrow> int" where
  "kernelVersionMajor uname = sint (fst (kernelVersion uname))"

lemma digit_step: "is_digit c \<Longrightarrow> (ucast (c - 48) :: 64 word) = word_of_nat (unat c - 48)"
proof -
  assume "is_digit c"
  then have "unat (c - 48) = unat c - unat (48 :: byte)"
    by (intro unat_sub) (simp add: is_digit_def)
  moreover have "(ucast (c - 48) :: 64 word) = word_of_nat (unat (c - 48))"
    by (rule of_nat_unat [symmetric])
  ultimately show ?thesis
    by simp
qed

lemma kv_loop_digits:
  assumes "\<forall>c \<in> set ds. is_digit c"
  shows "kv_loop (ds @ cs) values (word_of_nat v) vi = kv_loop cs values (word_of_nat (num10 v ds)) vi"
  using assms
proof (induction ds arbitrary: v)
  case Nil
  then show ?case by simp
next
  case (Cons d ds)
  have "kv_loop ((d # ds) @ cs) values (word_of_nat v) vi
      = kv_loop (ds @ cs) values (word_of_nat (v * 10 + (unat d - 48))) vi"
    using Cons.prems by (simp add: digit_step)
  also have "\<dots> = kv_loop cs values (word_of_nat (num10 v (d # ds))) vi"
    using Cons.IH Cons.prems by (simp del: of_nat_add of_nat_mult)
  finally show ?case .
qed

text \<open>The two leading numbers of a release string are read back, modulo the width of an \<open>int\<close>.\<close>

lemma kv_loop_version:
  assumes "\<not> is_digit c" and "\<not> is_digit c'"
  shows "kv_loop (ascii (digits10 a) @ c # ascii (digits10 b) @ c' # cs) [0, 0] 0 0 = [word_of_nat a, word_of_nat b]"
proof -
  have first: "kv_loop (ascii (digits10 a) @ c # ascii (digits10 b) @ c' # cs) [0, 0] 0 0
      = kv_loop (c # ascii (digits10 b) @ c' # cs) [0, 0] (word_of_nat a) 0"
    using kv_loop_digits [of "ascii (digits10 a)" _ "[0, 0]" 0 0] digits10_digits by (simp add: digits10_value)
  have "kv_loop (ascii (digits10 b) @ c' # cs) [word_of_nat a, 0] 0 1 = kv_loop (c' # cs) [word_of_nat a, 0] (word_of_nat b) 1"
    using kv_loop_digits [of "ascii (digits10 b)" _ "[word_of_nat a, 0]" 0 1] digits10_digits by (simp add: digits10_value)
  then show ?thesis
    using assms first by simp
qed

section \<open>The version of macOS (sys\_conn\_df\_darwin.go)\<close>

text \<open>
  \<open>strconv.Atoi\<close>: an optional sign and at least one decimal digit, within the range of \<open>int\<close>.
\<close>

definition Atoi :: "byte list \<Rightarrow> err + int" where
  "Atoi s =
     (case (case s of
              [] \<Rightarrow> (False, [])
            | c # cs \<Rightarrow> if c = 45 then (True, cs) else if c = 43 then (False, cs) else (False, s)) of
        (neg, ds) \<Rightarrow>
          if ds = [] \<or> \<not> list_all is_digit ds then Inl (ErrWrap ''strconv.Atoi'' (ErrMsg ''invalid syntax''))
          else
            let v = (if neg then - int (num10 0 ds) else int (num10 0 ds)) in
            if - (2 ^ 63) \<le> v \<and> v < 2 ^ 63 then Inr v
            else Inl (ErrWrap ''strconv.Atoi'' (ErrMsg ''value out of range'')))"

text \<open>\<open>strings.Index\<close> of a one-byte string.\<close>

fun index_byte :: "byte \<Rightarrow> byte list \<Rightarrow> nat option" where
  "index_byte c [] = None"
| "index_byte c (x # xs) = (if x = c then Some 0 else map_option Suc (index_byte c xs))"

lemma index_byte_app: "c \<notin> set xs \<Longrightarrow> index_byte c (xs @ c # ys) = Some (length xs)"
  by (induction xs) auto

definition getMacOSVersion :: "err + byte list \<Rightarrow> err + int" where
  "getMacOSVersion uname =
     (case uname of
        Inl e \<Rightarrow> Inl e
      | Inr release \<Rightarrow>
          (case index_byte 46 release of
             None \<Rightarrow> Inr 0
           | Some idx \<Rightarrow> Atoi (take idx release)))"

definition macOSVersion11 :: int where "macOSVersion11 = 20"
definition macOSVersion15 :: int where "macOSVersion15 = 24"

lemma digit_neq: "is_digit c \<Longrightarrow> c \<noteq> 45 \<and> c \<noteq> 43 \<and> c \<noteq> 46"
  by (auto simp: is_digit_def)

lemma Atoi_digits10: "n < 2 ^ 63 \<Longrightarrow> Atoi (ascii (digits10 n)) = Inr (int n)"
proof -
  assume n: "n < 2 ^ 63"
  obtain c cs where eq: "ascii (digits10 n) = c # cs"
    using digits10_nonempty [of n] by (cases "digits10 n") auto
  have c: "c \<noteq> 45" "c \<noteq> 43"
    using digits10_digits [of c n] eq digit_neq by auto
  have all: "list_all is_digit (c # cs)"
    using digits10_digits [of _ n] eq by (simp add: list_all_iff)
  have v: "num10 0 (c # cs) = n"
    using digits10_value [of n] eq by simp
  show ?thesis
    unfolding eq using c all v n by (simp add: Atoi_def del: num10_simps)
qed

section \<open>Switches in the environment\<close>

text \<open>
  \<open>os.Getenv\<close> is a function from names to values, empty for a name that is not set.
  \<open>strconv.ParseBool\<close> accepts twelve spellings.
\<close>

type_synonym environ = "string \<Rightarrow> string"

definition ParseBool :: "string \<Rightarrow> err + bool" where
  "ParseBool str =
     (if str \<in> set [''1'', ''t'', ''T'', ''true'', ''TRUE'', ''True''] then Inr True
      else if str \<in> set [''0'', ''f'', ''F'', ''false'', ''FALSE'', ''False''] then Inr False
      else Inl (ErrWrap ''strconv.ParseBool'' (ErrMsg ''invalid syntax'')))"

definition IsECNDisabledUsingEnv :: "environ \<Rightarrow> bool" where
  "IsECNDisabledUsingEnv getenv = (ParseBool (getenv ''QUIC_GO_DISABLE_ECN'') = Inr True)"

definition windows_IsECNDisabledUsingEnv :: "environ \<Rightarrow> bool" where
  "windows_IsECNDisabledUsingEnv getenv = (getenv ''QUIC_GO_DISABLE_ECN'' = ''true'')"

definition linux_IsECNEnabled :: "environ \<Rightarrow> int \<Rightarrow> bool" where
  "linux_IsECNEnabled getenv kernelMajor \<longleftrightarrow> 5 \<le> kernelMajor \<and> \<not> IsECNDisabledUsingEnv getenv"

definition darwin_IsECNEnabled :: "environ \<Rightarrow> bool" where
  "darwin_IsECNEnabled getenv \<longleftrightarrow> \<not> IsECNDisabledUsingEnv getenv"

definition freebsd_IsECNEnabled :: "environ \<Rightarrow> bool" where
  "freebsd_IsECNEnabled getenv \<longleftrightarrow> \<not> IsECNDisabledUsingEnv getenv"

definition windows_IsECNEnabled :: "environ \<Rightarrow> bool" where
  "windows_IsECNEnabled getenv = (if windows_IsECNDisabledUsingEnv getenv then False else False)"

section \<open>Classification of errors\<close>

text \<open>
  \<open>errors.As\<close> for \<open>*os.SyscallError\<close> and \<open>errors.Is\<close> for an error number both follow the chain of
  wrapped errors; a system-call error wraps its error number.
\<close>

fun as_SyscallError :: "err \<Rightarrow> (string \<times> string) option" where
  "as_SyscallError (SyscallError call errno) = Some (call, errno)"
| "as_SyscallError (ErrWrap _ e) = as_SyscallError e"
| "as_SyscallError _ = None"

fun is_errno :: "string \<Rightarrow> err \<Rightarrow> bool" where
  "is_errno n (Errno m) \<longleftrightarrow> m = n"
| "is_errno n (SyscallError _ m) \<longleftrightarrow> m = n"
| "is_errno n (ErrWrap _ e) \<longleftrightarrow> is_errno n e"
| "is_errno n _ \<longleftrightarrow> False"

definition IsGSOError :: "err option \<Rightarrow> bool" where
  "IsGSOError e = (case Option.bind e as_SyscallError of Some (_, errno) \<Rightarrow> errno = ''EIO'' | None \<Rightarrow> False)"

definition IsPermissionError :: "err option \<Rightarrow> bool" where
  "IsPermissionError e =
     (case Option.bind e as_SyscallError of
        Some (call, errno) \<Rightarrow> call = ''sendmsg'' \<and> errno = ''EPERM''
      | None \<Rightarrow> False)"

text \<open>The versions of the two for the other systems (\<open>sys_conn_helper_nonlinux.go\<close>).\<close>

definition nonlinux_IsGSOError :: "err option \<Rightarrow> bool" where
  "nonlinux_IsGSOError e = False"

definition nonlinux_IsPermissionError :: "err option \<Rightarrow> bool" where
  "nonlinux_IsPermissionError e = False"

definition linux_IsSendMsgSizeErr :: "err option \<Rightarrow> bool" where
  "linux_IsSendMsgSizeErr e = (case e of Some e \<Rightarrow> is_errno ''EMSGSIZE'' e | None \<Rightarrow> False)"

definition linux_IsRecvMsgSizeErr :: "err option \<Rightarrow> bool" where
  "linux_IsRecvMsgSizeErr e = False"

definition darwin_IsSendMsgSizeErr :: "err option \<Rightarrow> bool" where
  "darwin_IsSendMsgSizeErr e = (case e of Some e \<Rightarrow> is_errno ''EMSGSIZE'' e | None \<Rightarrow> False)"

definition darwin_IsRecvMsgSizeErr :: "err option \<Rightarrow> bool" where
  "darwin_IsRecvMsgSizeErr e = False"

definition windows_IsSendMsgSizeErr :: "err option \<Rightarrow> bool" where
  "windows_IsSendMsgSizeErr e = (case e of Some e \<Rightarrow> is_errno ''WSAEMSGSIZE'' e | None \<Rightarrow> False)"

definition windows_IsRecvMsgSizeErr :: "err option \<Rightarrow> bool" where
  "windows_IsRecvMsgSizeErr e = (case e of Some e \<Rightarrow> is_errno ''WSAEMSGSIZE'' e | None \<Rightarrow> False)"

definition other_IsSendMsgSizeErr :: "err option \<Rightarrow> bool" where
  "other_IsSendMsgSizeErr e = False"

definition other_IsRecvMsgSizeErr :: "err option \<Rightarrow> bool" where
  "other_IsRecvMsgSizeErr e = False"

text \<open>An error seen through any number of wrappings.\<close>

fun wrapped :: "string list \<Rightarrow> err \<Rightarrow> err" where
  "wrapped [] e = e"
| "wrapped (s # ss) e = ErrWrap s (wrapped ss e)"

lemma as_SyscallError_wrapped [simp]: "as_SyscallError (wrapped ss e) = as_SyscallError e"
  by (induction ss) auto

lemma is_errno_wrapped [simp]: "is_errno n (wrapped ss e) = is_errno n e"
  by (induction ss) auto

lemma as_SyscallError_Some: "as_SyscallError e = Some (call, errno) \<longleftrightarrow> (\<exists>ss. e = wrapped ss (SyscallError call errno))"
proof
  assume "as_SyscallError e = Some (call, errno)"
  then show "\<exists>ss. e = wrapped ss (SyscallError call errno)"
  proof (induction e rule: as_SyscallError.induct)
    case (1 call' errno')
    then show ?case by (intro exI [of _ "[]"]) simp
  next
    case (2 s e)
    then obtain ss where "e = wrapped ss (SyscallError call errno)" by auto
    then show ?case by (intro exI [of _ "s # ss"]) simp
  qed simp_all
qed auto

section \<open>Packet info\<close>

text \<open>
  \<open>net.IPv4\<close> builds the sixteen-byte form of an IPv4 address, \<open>netip.AddrFrom4\<close> keeps the four bytes.
\<close>

definition net_IPv4 :: "byte \<Rightarrow> byte \<Rightarrow> byte \<Rightarrow> byte \<Rightarrow> byte list" where
  "net_IPv4 a b c d = replicate 10 0 @ [255, 255, a, b, c, d]"

lemma To4_net_IPv4 [simp]: "To4 (net_IPv4 a b c d) = Some [a, b, c, d]"
  by (simp add: To4_def net_IPv4_def numeral_eq_Suc)

definition LittleEndian_Uint32 :: "byte list \<Rightarrow> 32 word" where
  "LittleEndian_Uint32 b = ucast (b ! 0) OR push_bit 8 (ucast (b ! 1)) OR push_bit 16 (ucast (b ! 2)) OR push_bit 24 (ucast (b ! 3))"

definition linux_ParseIPv4PktInfo :: "byte list \<Rightarrow> byte list option \<times> bool" where
  "linux_ParseIPv4PktInfo body =
     (if length body \<noteq> 12 then (None, False)
      else (Some (net_IPv4 (body ! 8) (body ! 9) (body ! 10) (body ! 11)), True))"

definition darwin_ParseIPv4PktInfo :: "byte list \<Rightarrow> byte list option \<times> 32 word \<times> bool" where
  "darwin_ParseIPv4PktInfo body =
     (if length body \<noteq> 12 then (None, 0, False)
      else (Some (take 4 (drop 8 body)), LittleEndian_Uint32 body, True))"

definition freebsd_ParseIPv4PktInfo :: "byte list \<Rightarrow> byte list option \<times> 32 word \<times> bool" where
  "freebsd_ParseIPv4PktInfo body =
     (if length body \<noteq> 4 then (None, 0, False) else (Some body, 0, True))"

definition windows_ParseIPv4PktInfo :: "byte list \<Rightarrow> byte list option \<times> 32 word" where
  "windows_ParseIPv4PktInfo oob = (None, 0)"

lemma LittleEndian_Uint32_bytes:
  "LittleEndian_Uint32 ([ucast n, ucast (drop_bit 8 n), ucast (drop_bit 16 n), ucast (drop_bit 24 n)] @ rest) = n"
  for n :: "32 word"
proof (rule bit_word_eqI)
  fix i assume "i < LENGTH(32)"
  then show "bit (LittleEndian_Uint32 ([ucast n, ucast (drop_bit 8 n), ucast (drop_bit 16 n), ucast (drop_bit 24 n)] @ rest)) i = bit n i"
    by (cases "i < 24"; cases "i < 16") (auto simp: LittleEndian_Uint32_def bit_simps)
qed

section \<open>Properties\<close>

lemma kernelVersion_release:
  assumes "\<not> is_digit c"
  shows "kernelVersion (Inr (ascii (digits10 major @ ''.'' @ digits10 minor) @ c # rest)) = (word_of_nat major, word_of_nat minor)"
  using kv_loop_version [of 46 c] assms by (simp add: kernelVersion_def is_digit_def)

lemma kernel_version_major:
  assumes "\<not> is_digit c" and "major < 2 ^ 63"
  shows "kernelVersionMajor (Inr (ascii (digits10 major @ ''.'' @ digits10 minor) @ c # rest)) = int major"
proof -
  have "sint (word_of_nat major :: 64 word) = int major"
    using assms(2) by (simp add: signed_of_nat signed_take_bit_int_eq_self)
  then show ?thesis
    by (simp only: kernelVersionMajor_def kernelVersion_release [OF assms(1)] fst_conv)
qed

lemma getMacOSVersion_release:
  assumes "major < 2 ^ 63"
  shows "getMacOSVersion (Inr (ascii (digits10 major) @ 46 # rest)) = Inr (int major)"
proof -
  have "46 \<notin> set (ascii (digits10 major))"
    using digits10_digits digit_neq by blast
  then show ?thesis
    using Atoi_digits10 [OF assms] by (simp add: getMacOSVersion_def index_byte_app)
qed

lemma release_6_12: "ascii (digits10 6 @ ''.'' @ digits10 12) = ascii ''6.12''"
proof -
  have "digits10 6 = [char_of (54::nat)]" "digits10 12 = [char_of (49::nat), char_of (50::nat)]"
    using digits10.simps [of 6] digits10.simps [of 12] digits10.simps [of 1] by simp_all
  then show ?thesis
    by (simp add: of_char_byte)
qed

text \<open>
  C25: The version that the kernel reports is the version the code decides by.  For a release string that
  starts with \<open>major.minor\<close> followed by any byte that is not a digit, \<open>kernelVersion\<close> returns exactly the
  two numbers, wrapped to the width of an \<open>int\<close>; the major number below \<open>2 ^ 63\<close> is then the one ECN and
  GSO support is decided by, and \<open>getMacOSVersion\<close> reads the same number from the same string.
\<close>

theorem kernel_version_roundtrip:
  assumes "\<not> is_digit c" and "major < 2 ^ 63"
  shows "kernelVersion (Inr (ascii (digits10 major @ ''.'' @ digits10 minor) @ c # rest)) = (word_of_nat major, word_of_nat minor)
    \<and> kernelVersionMajor (Inr (ascii (digits10 major @ ''.'' @ digits10 minor) @ c # rest)) = int major
    \<and> getMacOSVersion (Inr (ascii (digits10 major @ ''.'' @ digits10 minor) @ c # rest)) = Inr (int major)"
  using kernelVersion_release [OF assms(1)] kernel_version_major [OF assms]
    getMacOSVersion_release [OF assms(2), of "ascii (digits10 minor) @ c # rest"] by simp

theorem kernel_version_roundtrip_witness:
  "kernelVersion (Inr (ascii ''6.12'' @ 45 # ascii ''arch1'')) = (6, 12)
   \<and> kernelVersionMajor (Inr (ascii ''6.12'' @ 45 # ascii ''arch1'')) = 6
   \<and> getMacOSVersion (Inr (ascii ''6.12'' @ 45 # ascii ''arch1'')) = Inr 6"
proof -
  have "\<not> is_digit 45"
    by (simp add: is_digit_def)
  from kernel_version_roundtrip [OF this, of 6 12 "ascii ''arch1''", unfolded release_6_12] show ?thesis
    by (simp del: ascii_simps)
qed

text \<open>
  C27: ECN is used on Linux exactly when the kernel's major version is at least five and the environment
  does not switch it off; when \<open>uname\<close> fails it is off.
\<close>

theorem linux_ecn_gate:
  assumes "\<not> is_digit c" and "major < 2 ^ 63"
  shows "(linux_IsECNEnabled getenv (kernelVersionMajor (Inr (ascii (digits10 major @ ''.'' @ digits10 minor) @ c # rest)))
      \<longleftrightarrow> 5 \<le> major \<and> getenv ''QUIC_GO_DISABLE_ECN'' \<notin> {''1'', ''t'', ''T'', ''true'', ''TRUE'', ''True''})
    \<and> \<not> linux_IsECNEnabled getenv (kernelVersionMajor (Inl e))"
proof -
  have "IsECNDisabledUsingEnv getenv \<longleftrightarrow> getenv ''QUIC_GO_DISABLE_ECN'' \<in> {''1'', ''t'', ''T'', ''true'', ''TRUE'', ''True''}"
    by (simp add: IsECNDisabledUsingEnv_def ParseBool_def)
  then show ?thesis
    unfolding kernel_version_major [OF assms]
    by (simp add: linux_IsECNEnabled_def kernelVersionMajor_def kernelVersion_def)
qed

theorem linux_ecn_gate_witness:
  "linux_IsECNEnabled (\<lambda>_. '''') (kernelVersionMajor (Inr (ascii ''6.12'' @ 45 # ascii ''arch1'')))
   \<and> \<not> linux_IsECNEnabled (\<lambda>_. ''1'') (kernelVersionMajor (Inr (ascii ''6.12'' @ 45 # ascii ''arch1'')))"
proof -
  have "\<not> is_digit 45"
    by (simp add: is_digit_def)
  from linux_ecn_gate [OF this, of 6 _ 12 "ascii ''arch1''", unfolded release_6_12] show ?thesis
    by (simp del: ascii_simps)
qed


text \<open>
  C30: Linux and macOS read the same address from a packet-info message, whatever its length; on macOS the
  interface index is the one the kernel stored in the first four bytes.
\<close>

theorem pktinfo_agree:
  "snd (linux_ParseIPv4PktInfo body) = snd (snd (darwin_ParseIPv4PktInfo body))
   \<and> Option.bind (fst (linux_ParseIPv4PktInfo body)) To4 = fst (darwin_ParseIPv4PktInfo body)
   \<and> darwin_ParseIPv4PktInfo ([ucast n, ucast (drop_bit 8 n), ucast (drop_bit 16 n), ucast (drop_bit 24 n)] @ [s0, s1, s2, s3, a, b, c, d])
       = (Some [a, b, c, d], n, True)"
proof -
  have "take 4 (drop 8 body) = [body ! 8, body ! 9, body ! 10, body ! 11]" if "length body = 12"
    using that by (intro nth_equalityI) (auto simp: less_Suc_eq numeral_eq_Suc)
  then have "Option.bind (fst (linux_ParseIPv4PktInfo body)) To4 = fst (darwin_ParseIPv4PktInfo body)"
    by (simp add: linux_ParseIPv4PktInfo_def darwin_ParseIPv4PktInfo_def)
  moreover have "darwin_ParseIPv4PktInfo ([ucast n, ucast (drop_bit 8 n), ucast (drop_bit 16 n), ucast (drop_bit 24 n)] @ [s0, s1, s2, s3, a, b, c, d])
      = (Some [a, b, c, d], n, True)"
    unfolding darwin_ParseIPv4PktInfo_def LittleEndian_Uint32_bytes by simp
  ultimately show ?thesis
    by (simp add: linux_ParseIPv4PktInfo_def darwin_ParseIPv4PktInfo_def)
qed

end
