(* ===== verification/Cmsg.thy ===== *)
theory Cmsg
  imports Raw_Env
begin

text \<open>
  Socket control messages: the three functions that append one to the out-of-band bytes of a packet
  (\<open>sys_conn_oob.go\<close>, \<open>sys_conn_helper_linux.go\<close>) and the loop of \<open>oobConn.ReadPacket\<close> that parses
  those of a received packet.  The layout of a message is that of \<open>golang.org/x/sys/unix\<close>, a parameter;
  the locale \<open>cmsg_layout\<close> states what is documented of it, and the layout of 64-bit Linux satisfies it.
\<close>

section \<open>The functions of x/sys/unix\<close>

record cmsghdr =
  hdr_Level :: int
  hdr_Type :: int

text \<open>
  \<open>CmsgSpace\<close> and \<open>CmsgLen\<close>; the bytes of a \<open>Cmsghdr\<close> in memory after its level, type and length have
  been set; and \<open>ParseOneSocketControlMessage\<close>, which returns the header, the data and the remainder.
\<close>

record cmsg_api =
  CmsgSpace :: "nat \<Rightarrow> nat"
  CmsgLen :: "nat \<Rightarrow> nat"
  Cmsghdr_bytes :: "int \<Rightarrow> int \<Rightarrow> nat \<Rightarrow> byte list"
  ParseOne :: "byte list \<Rightarrow> err + cmsghdr \<times> byte list \<times> byte list"

text \<open>One message: the header padded to the data, the data padded to the end of the message.\<close>

definition cmsg_bytes :: "cmsg_api \<Rightarrow> int \<Rightarrow> int \<Rightarrow> byte list \<Rightarrow> byte list" where
  "cmsg_bytes A lv ty d =
     (let h = Cmsghdr_bytes A lv ty (CmsgLen A (length d)) in
      h @ replicate (CmsgSpace A 0 - length h) 0 @ d
        @ replicate (CmsgSpace A (length d) - CmsgSpace A 0 - length d) 0)"

definition msg_ok :: "int \<times> int \<times> byte list \<Rightarrow> bool" where
  "msg_ok m \<longleftrightarrow> (case m of (lv, ty, d) \<Rightarrow> int32 lv \<and> int32 ty \<and> length d < 2 ^ 16)"

locale cmsg_layout =
  fixes A :: cmsg_api
  assumes hdr_fits: "length (Cmsghdr_bytes A lv ty n) \<le> CmsgSpace A 0"
    and hdr_pos: "0 < length (Cmsghdr_bytes A lv ty n)"
    and hdr_size: "length (Cmsghdr_bytes A lv ty n) = length (Cmsghdr_bytes A lv' ty' n')"
    and space_data: "CmsgSpace A 0 + n \<le> CmsgSpace A n"
    and parse_msg: "msg_ok (lv, ty, d) \<Longrightarrow>
      ParseOne A (cmsg_bytes A lv ty d @ rest) = Inr (\<lparr>hdr_Level = lv, hdr_Type = ty\<rparr>, d, rest)"
    and parse_shrinks: "ParseOne A b = Inr (h, d, rest) \<Longrightarrow> length rest < length b"
begin

lemma space_pos: "0 < CmsgSpace A n"
  using hdr_pos [of 0 0 0] hdr_fits [of 0 0 0] space_data [of n] by linarith

lemma length_cmsg_bytes: "length (cmsg_bytes A lv ty d) = CmsgSpace A (length d)"
  using hdr_fits [of lv ty "CmsgLen A (length d)"] space_data [of "length d"]
  by (simp add: cmsg_bytes_def Let_def)

end

section \<open>Appending a message\<close>

text \<open>
  Writing through an unsafe pointer into \<open>b\<close> at \<open>i\<close>: the bytes written replace those in place.  The
  code first takes the address of \<open>b[i]\<close>, which is checked.
\<close>

definition write_at :: "byte list \<Rightarrow> nat \<Rightarrow> byte list \<Rightarrow> byte list go" where
  "write_at b i xs = (if i < length b then Ret (take i b @ xs @ drop (i + length xs) b) else Panic IndexOutOfRange)"

definition set_byte :: "byte list \<Rightarrow> nat \<Rightarrow> byte \<Rightarrow> byte list go" where
  "set_byte b i x = (if i < length b then Ret (b[i := x]) else Panic IndexOutOfRange)"

definition appendIPv4ECNMsg :: "platform \<Rightarrow> cmsg_api \<Rightarrow> byte list \<Rightarrow> ECN \<Rightarrow> byte list go" where
  "appendIPv4ECNMsg P A b val =
     (let startLen = length b;
          b = b @ replicate (CmsgSpace A (ECNIPv4DataLen P)) 0
      in go_bind (write_at b startLen (Cmsghdr_bytes A (IPPROTO_IP P) (IP_TOS P) (CmsgLen A (ECNIPv4DataLen P)))) (\<lambda>b.
         let offset = startLen + CmsgSpace A 0
         in go_bind (ToHeaderBits val) (set_byte b offset)))"

definition appendIPv6ECNMsg :: "platform \<Rightarrow> cmsg_api \<Rightarrow> byte list \<Rightarrow> ECN \<Rightarrow> byte list go" where
  "appendIPv6ECNMsg P A b val =
     (let startLen = length b;
          dataLen = 4;
          b = b @ replicate (CmsgSpace A dataLen) 0
      in go_bind (write_at b startLen (Cmsghdr_bytes A (IPPROTO_IPV6 P) (IPV6_TCLASS P) (CmsgLen A dataLen))) (\<lambda>b.
         let offset = startLen + CmsgSpace A 0
         in go_bind (ToHeaderBits val) (set_byte b offset)))"

text \<open>
  The segment size is stored in the byte order of the machine, little endian here; on other systems
  than Linux the function returns nil.
\<close>

definition uint16_bytes :: "16 word \<Rightarrow> byte list" where
  "uint16_bytes w = [ucast w, ucast (drop_bit 8 w)]"

definition AppendUDPSegmentSizeMsg :: "platform \<Rightarrow> cmsg_api \<Rightarrow> byte list \<Rightarrow> 16 word \<Rightarrow> byte list go" where
  "AppendUDPSegmentSizeMsg P A b sz =
     (if \<not> is_linux P then Ret []
      else
        let startLen = length b;
            dataLen = 2;
            b = b @ replicate (CmsgSpace A dataLen) 0
        in go_bind (write_at b startLen (Cmsghdr_bytes A (IPPROTO_UDP P) (UDP_SEGMENT P) (CmsgLen A dataLen))) (\<lambda>b.
           let offset = startLen + CmsgSpace A 0
           in write_at b offset (uint16_bytes sz)))"

section \<open>Parsing the messages of a packet\<close>

text \<open>
  The loop of \<open>oobConn.ReadPacket\<close>: the result is an error (then the four other results are reset) or
  the ECN codepoint of the last message that carries one.  The loop ends when no bytes are left; that
  it does end is a property of the parser, so the loop is partial here.
\<close>

definition cmsg_ecn :: "platform \<Rightarrow> cmsghdr \<Rightarrow> byte list \<Rightarrow> ECN \<Rightarrow> ECN go" where
  "cmsg_ecn P hdr body ecn =
     go_bind
       (if hdr_Level hdr = IPPROTO_IP P \<and> hdr_Type hdr = msgTypeIPTOS P
        then go_bind (go_index body 0) (\<lambda>x. ParseECNHeaderBits (x AND ecnMask)) else Ret ecn) (\<lambda>ecn.
       if hdr_Level hdr = IPPROTO_IPV6 P \<and> hdr_Type hdr = IPV6_TCLASS P
       then go_bind (go_index body 0) (\<lambda>x. ParseECNHeaderBits (x AND ecnMask)) else Ret ecn)"

partial_function (option) parse_cmsgs ::
    "platform \<Rightarrow> cmsg_api \<Rightarrow> byte list \<Rightarrow> ECN \<Rightarrow> (err + ECN) go option" where
  "parse_cmsgs P A oobData ecn =
     (if oobData = [] then Some (Ret (Inr ecn))
      else case ParseOne A oobData of
        Inl e \<Rightarrow> Some (Ret (Inl e))
      | Inr (hdr, body, remainder) \<Rightarrow>
          (case cmsg_ecn P hdr body ecn of
             Ret ecn \<Rightarrow> parse_cmsgs P A remainder ecn
           | Panic p \<Rightarrow> Some (Panic p)
           | Exit n \<Rightarrow> Some (Exit n)))"

declare parse_cmsgs.simps [code]

section \<open>What appending writes\<close>

lemma write_at_end:
  assumes "length xs \<le> n" and "0 < n"
  shows "write_at (b @ replicate n 0) (length b) xs = Ret (b @ xs @ replicate (n - length xs) 0)"
  using assms by (simp add: write_at_def)

lemma set_byte_replicate:
  assumes "0 < n"
  shows "(replicate n (0::byte))[0 := x] = x # replicate (n - 1) 0"
  using assms by (cases n) auto

lemma ecnMask_bits: "ToHeaderBits e = Ret x \<Longrightarrow> ParseECNHeaderBits (x AND ecnMask) = Ret e"
  using ToHeaderBits_defined [of e x] Parse_ToHeaderBits [of e x] by (simp add: ecnMask_def)

context cmsg_layout
begin

text \<open>
  The common body of the two ECN functions: a zeroed message with the header and, in the first byte
  of its data, the header bits.
\<close>

lemma append_byte_msg:
  assumes n: "0 < n"
  shows "go_bind (write_at (b @ replicate (CmsgSpace A n) 0) (length b) (Cmsghdr_bytes A lv ty (CmsgLen A n))) (\<lambda>b'.
       go_bind (ToHeaderBits val) (set_byte b' (length b + CmsgSpace A 0)))
     = go_bind (ToHeaderBits val) (\<lambda>x. Ret (b @ cmsg_bytes A lv ty (x # replicate (n - 1) 0)))"
proof -
  let ?h = "Cmsghdr_bytes A lv ty (CmsgLen A n)"
  let ?k = "CmsgSpace A 0 - length ?h" and ?m = "CmsgSpace A n - CmsgSpace A 0"
  have le: "length ?h \<le> CmsgSpace A 0" "CmsgSpace A 0 + n \<le> CmsgSpace A n" "length ?h \<le> CmsgSpace A n"
    using hdr_fits [of lv ty "CmsgLen A n"] space_data [of n] by linarith+
  have "CmsgSpace A n - length ?h = ?k + ?m"
    using le by simp
  then have w: "write_at (b @ replicate (CmsgSpace A n) 0) (length b) ?h = Ret (b @ ?h @ replicate ?k 0 @ replicate ?m 0)"
    using write_at_end [OF le(3) space_pos, of b] by (simp add: replicate_add)
  have pos: "length (b @ ?h @ replicate ?k 0) = length b + CmsgSpace A 0"
    using le by simp
  have "set_byte (b @ ?h @ replicate ?k 0 @ replicate ?m 0) (length b + CmsgSpace A 0) x
      = Ret (b @ cmsg_bytes A lv ty (x # replicate (n - 1) 0))" for x
  proof -
    have "(b @ ?h @ replicate ?k 0 @ replicate ?m 0)[length b + CmsgSpace A 0 := x]
        = (b @ ?h @ replicate ?k 0) @ (replicate ?m 0)[0 := x]"
      using list_update_append [of "b @ ?h @ replicate ?k 0" "replicate ?m 0" "length b + CmsgSpace A 0" x] pos by simp
    also have "(replicate ?m (0::byte))[0 := x] = x # replicate (?m - 1) 0"
      using le n by (intro set_byte_replicate) linarith
    also have "?m - 1 = (n - 1) + (?m - n)"
      using le n by linarith
    finally have "(b @ ?h @ replicate ?k 0 @ replicate ?m 0)[length b + CmsgSpace A 0 := x]
        = (b @ ?h @ replicate ?k 0) @ x # replicate (n - 1) 0 @ replicate (?m - n) 0"
      unfolding replicate_add .
    then show ?thesis
      using le n by (simp add: set_byte_def cmsg_bytes_def Let_def)
  qed
  then have "set_byte (b @ ?h @ replicate ?k 0 @ replicate ?m 0) (length b + CmsgSpace A 0)
      = (\<lambda>x. Ret (b @ cmsg_bytes A lv ty (x # replicate (n - 1) 0)))"
    by (rule ext)
  then show ?thesis
    by (simp add: w)
qed

lemma append_word_msg:
  assumes n: "length d = n" and pos: "0 < n"
  shows "go_bind (write_at (b @ replicate (CmsgSpace A n) 0) (length b) (Cmsghdr_bytes A lv ty (CmsgLen A n))) (\<lambda>b'.
       write_at b' (length b + CmsgSpace A 0) d) = Ret (b @ cmsg_bytes A lv ty d)"
proof -
  let ?h = "Cmsghdr_bytes A lv ty (CmsgLen A n)"
  let ?k = "CmsgSpace A 0 - length ?h" and ?m = "CmsgSpace A n - CmsgSpace A 0"
  have le: "length ?h \<le> CmsgSpace A 0" "CmsgSpace A 0 + n \<le> CmsgSpace A n" "length ?h \<le> CmsgSpace A n"
    using hdr_fits [of lv ty "CmsgLen A n"] space_data [of n] by linarith+
  have "CmsgSpace A n - length ?h = ?k + ?m"
    using le by simp
  then have w: "write_at (b @ replicate (CmsgSpace A n) 0) (length b) ?h = Ret (b @ ?h @ replicate ?k 0 @ replicate ?m 0)"
    using write_at_end [OF le(3) space_pos, of b] by (simp add: replicate_add)
  have "write_at ((b @ ?h @ replicate ?k 0) @ replicate ?m 0) (length (b @ ?h @ replicate ?k 0)) d
      = Ret ((b @ ?h @ replicate ?k 0) @ d @ replicate (?m - length d) 0)"
    using le pos n by (intro write_at_end) linarith+
  then show ?thesis
    using le n by (simp add: w cmsg_bytes_def Let_def)
qed

end

section \<open>The interface of the append functions\<close>

text \<open>
  Each append function keeps the bytes it is given and adds one message; it panics exactly when the
  value has no encoding.
\<close>

locale cmsg_writer = cmsg_layout A for A +
  fixes wr :: "byte list \<Rightarrow> 'v \<Rightarrow> byte list go" and lv :: int and ty :: int and enc :: "'v \<Rightarrow> byte list go"
  assumes wr_law: "wr b v = go_bind (enc v) (\<lambda>d. Ret (b @ cmsg_bytes A lv ty d))"
    and enc_ok: "enc v = Ret d \<Longrightarrow> msg_ok (lv, ty, d)"
begin

lemma wr_prefix: "wr b v = Ret b' \<Longrightarrow> take (length b) b' = b \<and> length b < length b'"
  using space_pos by (auto simp: wr_law go_bind_Ret_iff length_cmsg_bytes)

lemma wr_parse:
  assumes "wr b v = Ret b'"
  shows "\<exists>d. enc v = Ret d \<and> ParseOne A (drop (length b) b') = Inr (\<lparr>hdr_Level = lv, hdr_Type = ty\<rparr>, d, [])"
proof -
  obtain d where d: "enc v = Ret d" "b' = b @ cmsg_bytes A lv ty d"
    using assms by (auto simp: wr_law go_bind_Ret_iff)
  then show ?thesis
    using parse_msg [OF enc_ok [OF d(1)], of "[]"] by simp
qed

end

locale cmsg_platform = cmsg_layout A for A +
  fixes P :: platform
  assumes P: "platform_ok P"

definition enc_bits :: "nat \<Rightarrow> ECN \<Rightarrow> byte list go" where
  "enc_bits n v = go_bind (ToHeaderBits v) (\<lambda>x. Ret (x # replicate (n - 1) 0))"

lemma length_uint16_bytes [simp]: "length (uint16_bytes w) = 2"
  by (simp add: uint16_bytes_def)

sublocale cmsg_platform \<subseteq> v4: cmsg_writer A "appendIPv4ECNMsg P A" "IPPROTO_IP P" "IP_TOS P" "enc_bits (ECNIPv4DataLen P)"
proof unfold_locales
  show "appendIPv4ECNMsg P A b v =
      go_bind (enc_bits (ECNIPv4DataLen P) v) (\<lambda>d. Ret (b @ cmsg_bytes A (IPPROTO_IP P) (IP_TOS P) d))" for b v
    using append_byte_msg [of "ECNIPv4DataLen P" b "IPPROTO_IP P" "IP_TOS P" v] P
    by (simp add: appendIPv4ECNMsg_def Let_def enc_bits_def go_bind_assoc platform_ok_def)
  show "msg_ok (IPPROTO_IP P, IP_TOS P, d)" if "enc_bits (ECNIPv4DataLen P) v = Ret d" for v d
    using that P by (auto simp: enc_bits_def go_bind_Ret_iff msg_ok_def platform_ok_def)
qed

sublocale cmsg_platform \<subseteq> v6: cmsg_writer A "appendIPv6ECNMsg P A" "IPPROTO_IPV6 P" "IPV6_TCLASS P" "enc_bits 4"
proof unfold_locales
  show "appendIPv6ECNMsg P A b v =
      go_bind (enc_bits 4 v) (\<lambda>d. Ret (b @ cmsg_bytes A (IPPROTO_IPV6 P) (IPV6_TCLASS P) d))" for b v
    using append_byte_msg [of 4 b "IPPROTO_IPV6 P" "IPV6_TCLASS P" v]
    by (simp add: appendIPv6ECNMsg_def Let_def enc_bits_def go_bind_assoc)
  show "msg_ok (IPPROTO_IPV6 P, IPV6_TCLASS P, d)" if "enc_bits 4 v = Ret d" for v d
    using that P by (auto simp: enc_bits_def go_bind_Ret_iff msg_ok_def platform_ok_def)
qed

locale cmsg_linux = cmsg_platform +
  assumes lx: "is_linux P"

sublocale cmsg_linux \<subseteq> gso: cmsg_writer A "AppendUDPSegmentSizeMsg P A" "IPPROTO_UDP P" "UDP_SEGMENT P" "\<lambda>w. Ret (uint16_bytes w)"
proof unfold_locales
  show "AppendUDPSegmentSizeMsg P A b v =
      go_bind (Ret (uint16_bytes v)) (\<lambda>d. Ret (b @ cmsg_bytes A (IPPROTO_UDP P) (UDP_SEGMENT P) d))" for b v
    using append_word_msg [of "uint16_bytes v" 2 b "IPPROTO_UDP P" "UDP_SEGMENT P"] lx
    by (simp add: AppendUDPSegmentSizeMsg_def Let_def numeral_2_eq_2)
  show "msg_ok (IPPROTO_UDP P, UDP_SEGMENT P, d)" if "Ret (uint16_bytes v) = Ret d" for v d
    using that P by (auto simp: msg_ok_def platform_ok_def)
qed

section \<open>What the parsing loop computes\<close>

definition encode_msgs :: "cmsg_api \<Rightarrow> (int \<times> int \<times> byte list) list \<Rightarrow> byte list" where
  "encode_msgs A ms = concat (map (\<lambda>(lv, ty, d). cmsg_bytes A lv ty d) ms)"

text \<open>
  The messages that carry the ECN bits of the received packet; the specification of the loop is the
  last of them.
\<close>

definition carries :: "platform \<Rightarrow> int \<times> int \<times> byte list \<Rightarrow> bool" where
  "carries P m \<longleftrightarrow> (case m of (lv, ty, d) \<Rightarrow>
     lv = IPPROTO_IP P \<and> ty = msgTypeIPTOS P \<or> lv = IPPROTO_IPV6 P \<and> ty = IPV6_TCLASS P)"

definition ecn_of_bits :: "byte \<Rightarrow> ECN" where
  "ecn_of_bits x = (if x AND 3 = 0 then ECNNon else if x AND 3 = 1 then ECT1 else if x AND 3 = 2 then ECT0 else ECNCE)"

definition last_ecn :: "platform \<Rightarrow> (int \<times> int \<times> byte list) list \<Rightarrow> ECN \<Rightarrow> ECN" where
  "last_ecn P ms ecn =
     (case filter (carries P) ms of [] \<Rightarrow> ecn | cs \<Rightarrow> ecn_of_bits (hd (snd (snd (last cs)))))"

lemma Parse_ecn_of_bits: "ParseECNHeaderBits (x AND ecnMask) = Ret (ecn_of_bits x)"
  using ecn_mask_cases [of x] by (auto simp: ParseECNHeaderBits_def ecnMask_def ecn_of_bits_def)

lemma cmsg_ecn_spec:
  assumes "platform_ok P" and "carries P (lv, ty, d) \<Longrightarrow> d \<noteq> []"
  shows "cmsg_ecn P \<lparr>hdr_Level = lv, hdr_Type = ty\<rparr> d ecn =
    Ret (if carries P (lv, ty, d) then ecn_of_bits (hd d) else ecn)"
  using assms
  by (cases d) (auto simp: cmsg_ecn_def carries_def platform_ok_def Parse_ecn_of_bits)

lemma last_ecn_Cons:
  "last_ecn P (m # ms) ecn = last_ecn P ms (if carries P m then ecn_of_bits (hd (snd (snd m))) else ecn)"
  by (auto simp: last_ecn_def split: list.splits)

context cmsg_layout
begin

lemma parse_encode:
  assumes "platform_ok P" and "\<forall>m \<in> set ms. msg_ok m \<and> (carries P m \<longrightarrow> snd (snd m) \<noteq> [])"
  shows "parse_cmsgs P A (encode_msgs A ms) ecn = Some (Ret (Inr (last_ecn P ms ecn)))"
  using assms(2)
proof (induction ms arbitrary: ecn)
  case Nil
  show ?case
    by (subst parse_cmsgs.simps) (simp add: encode_msgs_def last_ecn_def)
next
  case (Cons m ms)
  obtain lv ty d where m: "m = (lv, ty, d)" by (cases m)
  have ne: "encode_msgs A (m # ms) \<noteq> []"
    using length_cmsg_bytes [of lv ty d] space_pos [of "length d"] by (auto simp: encode_msgs_def m)
  have p: "ParseOne A (encode_msgs A (m # ms)) = Inr (\<lparr>hdr_Level = lv, hdr_Type = ty\<rparr>, d, encode_msgs A ms)"
    using parse_msg [of lv ty d "encode_msgs A ms"] Cons.prems by (simp add: encode_msgs_def m)
  have "cmsg_ecn P \<lparr>hdr_Level = lv, hdr_Type = ty\<rparr> d ecn = Ret (if carries P m then ecn_of_bits (hd d) else ecn)"
    using cmsg_ecn_spec [OF assms(1), of lv ty d ecn] Cons.prems by (simp add: m)
  then show ?case
    using Cons.IH Cons.prems p ne by (subst parse_cmsgs.simps) (simp add: last_ecn_Cons m)
qed

lemma parse_total: "\<exists>r. parse_cmsgs P A b ecn = Some r"
proof (induction "length b" arbitrary: b ecn rule: less_induct)
  case less
  show ?case
  proof (cases "b = [] \<or> (\<exists>e. ParseOne A b = Inl e)")
    case True
    then show ?thesis by (subst parse_cmsgs.simps) auto
  next
    case False
    then obtain h d rest where p: "ParseOne A b = Inr (h, d, rest)" "b \<noteq> []"
      by (cases "ParseOne A b") auto
    then show ?thesis
      using less parse_shrinks [OF p(1)] by (subst parse_cmsgs.simps) (auto split: go.splits)
  qed
qed

end

section \<open>The layout of 64-bit Linux\<close>

text \<open>
  A header is the length in eight bytes, the level and the type in four each, all little endian; a
  message is padded to a multiple of eight.
\<close>

fun le_bytes :: "nat \<Rightarrow> nat \<Rightarrow> byte list" where
  "le_bytes 0 n = []"
| "le_bytes (Suc k) n = word_of_nat n # le_bytes k (n div 256)"

fun le_nat :: "byte list \<Rightarrow> nat" where
  "le_nat [] = 0"
| "le_nat (x # xs) = unat x + 256 * le_nat xs"

definition int32_nat :: "int \<Rightarrow> nat" where "int32_nat x = nat (x mod 2 ^ 32)"
definition nat_int32 :: "nat \<Rightarrow> int" where "nat_int32 n = (if n < 2 ^ 31 then int n else int n - 2 ^ 32)"

definition align8 :: "nat \<Rightarrow> nat" where "align8 n = (n + 7) div 8 * 8"

definition linux64_parse :: "byte list \<Rightarrow> err + cmsghdr \<times> byte list \<times> byte list" where
  "linux64_parse b =
     (let n = le_nat (take 8 b) in
      if length b < 16 \<or> n < 16 \<or> length b < n then Inl (ErrMsg ''EINVAL'')
      else Inr (\<lparr>hdr_Level = nat_int32 (le_nat (take 4 (drop 8 b))), hdr_Type = nat_int32 (le_nat (take 4 (drop 12 b)))\<rparr>,
                drop 16 (take n b), drop (align8 n) b))"

definition linux64 :: cmsg_api where
  "linux64 = \<lparr>CmsgSpace = (\<lambda>n. 16 + align8 n), CmsgLen = (\<lambda>n. 16 + n),
     Cmsghdr_bytes = (\<lambda>lv ty n. le_bytes 8 n @ le_bytes 4 (int32_nat lv) @ le_bytes 4 (int32_nat ty)),
     ParseOne = linux64_parse\<rparr>"

lemma length_le_bytes [simp]: "length (le_bytes k n) = k"
  by (induction k arbitrary: n) auto

lemma le_nat_bytes: "le_nat (le_bytes k n) = n mod 256 ^ k"
proof (induction k arbitrary: n)
  case (Suc k)
  have "unat (word_of_nat n :: byte) = n mod 256"
    by (simp add: unat_of_nat)
  then show ?case
    using mod_mult2_eq [of n 256 "256 ^ k"] by (simp add: Suc)
qed simp

lemma int32_roundtrip: "int32 x \<Longrightarrow> nat_int32 (int32_nat x) = x"
proof -
  assume x: "int32 x"
  show ?thesis
  proof (cases "0 \<le> x")
    case True
    then have "x mod 2 ^ 32 = x" using x by (intro mod_pos_pos_trivial) (auto simp: int32_def)
    then show ?thesis using x True by (simp add: int32_nat_def nat_int32_def int32_def nat_less_iff)
  next
    case False
    then have "x mod 2 ^ 32 = x + 2 ^ 32"
      using x mod_pos_pos_trivial [of "x + 2 ^ 32" "2 ^ 32"] by (auto simp: int32_def)
    then show ?thesis using x False by (simp add: int32_nat_def nat_int32_def int32_def nat_less_iff)
  qed
qed

lemma int32_nat_bound: "int32_nat x mod 4294967296 = int32_nat x"
proof -
  have "int32_nat x < 2 ^ 32"
    by (simp add: int32_nat_def nat_less_iff)
  then show ?thesis by simp
qed

lemma align8_ge: "n \<le> align8 n"
  unfolding align8_def by linarith

interpretation lx64: cmsg_layout linux64
proof unfold_locales
  show "ParseOne linux64 (cmsg_bytes linux64 lv ty d @ rest) = Inr (\<lparr>hdr_Level = lv, hdr_Type = ty\<rparr>, d, rest)"
    if ok: "msg_ok (lv, ty, d)" for lv ty d rest
  proof -
    let ?n = "16 + length d"
    let ?h = "le_bytes 8 ?n @ le_bytes 4 (int32_nat lv) @ le_bytes 4 (int32_nat ty)"
    let ?pad = "replicate (align8 (length d) - length d) (0 :: byte)"
    have msg: "cmsg_bytes linux64 lv ty d = ?h @ d @ ?pad"
      by (simp add: cmsg_bytes_def linux64_def align8_def)
    have n: "?n mod 256 ^ 8 = ?n"
      using ok by (simp add: msg_ok_def)
    have al: "align8 ?n = 16 + align8 (length d)"
      unfolding align8_def by presburger
    have "length (cmsg_bytes linux64 lv ty d) = align8 ?n"
      using align8_ge [of "length d"] by (simp add: msg al)
    then have "drop (align8 ?n) (cmsg_bytes linux64 lv ty d @ rest) = rest"
      by simp
    then show ?thesis
      using ok align8_ge [of "length d"]
      by (simp add: linux64_def linux64_parse_def msg [unfolded linux64_def] le_nat_bytes [of 8] n
          le_nat_bytes [of 4] int32_nat_bound int32_roundtrip msg_ok_def)
  qed
  show "length rest < length b" if "ParseOne linux64 b = Inr (h, d, rest)" for b h d rest
  proof -
    have "16 \<le> align8 (le_nat (take 8 b)) \<and> 16 \<le> length b \<and> rest = drop (align8 (le_nat (take 8 b))) b"
      using that align8_ge [of "le_nat (take 8 b)"]
      by (auto simp: linux64_def linux64_parse_def Let_def split: if_splits)
    then show ?thesis by auto
  qed
qed (use align8_ge in \<open>simp_all add: linux64_def align8_def\<close>)

interpretation lxc: cmsg_linux linux64 linux
  by unfold_locales (simp, simp add: linux_def)

section \<open>Properties\<close>

lemma ecn_of_header_bits: "ToHeaderBits e = Ret x \<Longrightarrow> ecn_of_bits x = e"
  using ecnMask_bits [of e x] Parse_ecn_of_bits [of x] by simp

lemma encode_msgs_append: "encode_msgs A (ms @ ms') = encode_msgs A ms @ encode_msgs A ms'"
  by (simp add: encode_msgs_def)

lemma encode_msgs_single: "encode_msgs A [(lv, ty, d)] = cmsg_bytes A lv ty d"
  by (simp add: encode_msgs_def)

lemma last_ecn_snoc: "carries P m \<Longrightarrow> last_ecn P (ms @ [m]) ecn = ecn_of_bits (hd (snd (snd m)))"
proof -
  assume "carries P m"
  then have "filter (carries P) (ms @ [m]) = filter (carries P) ms @ [m]" by simp
  then show ?thesis
    unfolding last_ecn_def by (cases "filter (carries P) ms") auto
qed

context cmsg_platform
begin

lemmas writers = v4.cmsg_writer_axioms v6.cmsg_writer_axioms

lemma append_roundtrip:
  assumes ms: "\<forall>m \<in> set ms. msg_ok m \<and> (carries P m \<longrightarrow> snd (snd m) \<noteq> [])"
    and wr: "cmsg_writer A wr lv ty (enc_bits n)" and n: "0 < n" and c: "carries P (lv, ty, [])"
  shows "(case wr (encode_msgs A ms) e of
       Ret b \<Rightarrow> parse_cmsgs P A b ecn = Some (Ret (Inr e))
     | Panic p \<Rightarrow> ToHeaderBits e = Panic p
     | Exit k \<Rightarrow> ToHeaderBits e = Exit k)"
proof (cases "ToHeaderBits e")
  case (Ret x)
  let ?d = "x # replicate (n - 1) 0"
  have enc: "enc_bits n e = Ret ?d"
    by (simp add: enc_bits_def Ret)
  then have w: "wr (encode_msgs A ms) e = Ret (encode_msgs A (ms @ [(lv, ty, ?d)]))"
    using cmsg_writer.wr_law [OF wr, of "encode_msgs A ms" e] by (simp add: encode_msgs_append encode_msgs_single)
  have car: "carries P (lv, ty, ?d)"
    using c by (simp add: carries_def)
  have "\<forall>m \<in> set (ms @ [(lv, ty, ?d)]). msg_ok m \<and> (carries P m \<longrightarrow> snd (snd m) \<noteq> [])"
    using ms cmsg_writer.enc_ok [OF wr enc] by simp
  from parse_encode [OF P this] show ?thesis
    using w car ecn_of_header_bits [OF Ret] by (simp add: last_ecn_snoc)
next
  case (Panic p)
  then show ?thesis using cmsg_writer.wr_law [OF wr] by (simp add: enc_bits_def)
next
  case (Exit k)
  then show ?thesis using cmsg_writer.wr_law [OF wr] by (simp add: enc_bits_def)
qed

end

text \<open>
  On any sequence of well-formed control messages the parsing loop of \<open>ReadPacket\<close> ends without
  an error and returns the ECN bits of the last message that carries them, whatever other messages
  surround it, and the default when there is none.
\<close>

theorem parse_cmsgs_last:
  assumes "cmsg_layout A" and "platform_ok P"
    and "\<forall>m \<in> set ms. msg_ok m \<and> (carries P m \<longrightarrow> snd (snd m) \<noteq> [])"
  shows "parse_cmsgs P A (encode_msgs A ms) ecn = Some (Ret (Inr (last_ecn P ms ecn)))"
  by (rule cmsg_layout.parse_encode [OF assms])

theorem parse_cmsgs_last_witness:
  "parse_cmsgs linux linux64 (encode_msgs linux64 [(0, 1, [2]), (1, 1, []), (41, 67, [186, 0, 0, 0]), (17, 103, [7])])
     ECNUnsupported = Some (Ret (Inr ECT0))"
proof -
  let ?ms = "[(0, 1, [2]), (1, 1, []), (41, 67, [186, 0, 0, 0]), (17, 103, [7])] :: (int \<times> int \<times> byte list) list"
  have "last_ecn linux ?ms ECNUnsupported = ECT0"
    by (simp add: last_ecn_def carries_def linux_def ecn_of_bits_def)
  then show ?thesis
    using parse_cmsgs_last [OF lx64.cmsg_layout_axioms platforms_ok(1), of ?ms ECNUnsupported]
    by (simp add: msg_ok_def int32_def carries_def linux_def)
qed

text \<open>
  C20: The parsing loop of \<open>ReadPacket\<close> ends on every byte string a socket may return, well formed or not.
\<close>

theorem parse_cmsgs_terminates:
  assumes "cmsg_layout A"
  shows "\<exists>r. parse_cmsgs P A b ecn = Some r"
  by (rule cmsg_layout.parse_total [OF assms])

theorem parse_cmsgs_terminates_witness:
  "\<exists>r. parse_cmsgs linux linux64 [1, 2, 3] ECNNon = Some r"
  by (rule parse_cmsgs_terminates [OF lx64.cmsg_layout_axioms])

text \<open>
  The ECN control messages that the library appends for IPv4 and IPv6 decode to the codepoint they
  were given, after any well-formed messages, on a platform that reports the bits under the number it
  sends them with; appending panics exactly for a codepoint without header bits.
\<close>

theorem ecn_cmsg_roundtrip:
  assumes "cmsg_platform A P" and "msgTypeIPTOS P = IP_TOS P"
    and "\<forall>m \<in> set ms. msg_ok m \<and> (carries P m \<longrightarrow> snd (snd m) \<noteq> [])"
    and "app = appendIPv4ECNMsg P A \<or> app = appendIPv6ECNMsg P A"
  shows "(case app (encode_msgs A ms) e of
       Ret b \<Rightarrow> parse_cmsgs P A b ECNUnsupported = Some (Ret (Inr e))
     | Panic p \<Rightarrow> ToHeaderBits e = Panic p
     | Exit k \<Rightarrow> ToHeaderBits e = Exit k)"
proof -
  have ok: "0 < ECNIPv4DataLen P"
    using cmsg_platform.P [OF assms(1)] by (simp add: platform_ok_def)
  have c: "carries P (IPPROTO_IP P, IP_TOS P, [])" "carries P (IPPROTO_IPV6 P, IPV6_TCLASS P, [])"
    using assms(2) by (simp_all add: carries_def)
  from assms(4) show ?thesis
    using cmsg_platform.append_roundtrip [OF assms(1,3) cmsg_platform.writers(1) [OF assms(1)] ok c(1)]
      cmsg_platform.append_roundtrip [OF assms(1,3) cmsg_platform.writers(2) [OF assms(1)] _ c(2)]
    by auto
qed

theorem ecn_cmsg_roundtrip_witness:
  "(case appendIPv4ECNMsg linux linux64 (encode_msgs linux64 [(17, 103, [7, 0])]) ECNCE of
       Ret b \<Rightarrow> parse_cmsgs linux linux64 b ECNUnsupported = Some (Ret (Inr ECNCE))
     | Panic p \<Rightarrow> ToHeaderBits ECNCE = Panic p
     | Exit k \<Rightarrow> ToHeaderBits ECNCE = Exit k)"
  by (rule ecn_cmsg_roundtrip [OF lxc.cmsg_platform_axioms])
    (simp_all add: linux_def msg_ok_def int32_def carries_def)

end
