(* ===== verification/Batch_Reader.thy ===== *)
theory Batch_Reader
  imports Raw_Env Ring_Queue
begin

text \<open>
  The batch reader of \<open>sys_conn_oob_reader.go\<close>.  Its messages are slices of arrays that belong to
  pooled byte buffers, and it depends on which of them alias, so arrays and byte buffers are kept in an
  explicit heap.  The system call behind \<open>ReadBatch\<close> is a parameter.  This theory has the operations and
  the invariant of a reader, which a new one satisfies; \<open>Batch_Stream\<close> has what the operations promise.
\<close>

section \<open>Arrays, slices and byte buffers\<close>

text \<open>
  A slice is the address of its array and its length; all slices here start at the beginning of their
  array, whose length is their capacity.  A nil slice is \<open>(0, 0)\<close>.  \<open>bbuf\<close> holds the field \<open>B\<close> of the
  byte buffers; the two pools are lists of addresses of byte buffers.
\<close>

type_synonym slice = "nat \<times> nat"

record rheap =
  arrays :: "byte list list"
  bbuf :: "slice list"

definition bb_Get :: "(nat list \<Rightarrow> nat option) \<Rightarrow> nat list \<Rightarrow> rheap \<Rightarrow> nat \<times> nat list \<times> rheap" where
  "bb_Get pick pool h =
     (case pick pool of
        Some x \<Rightarrow> (x, remove1 x pool, h)
      | None \<Rightarrow> (length (bbuf h), pool, h\<lparr>bbuf := bbuf h @ [(0, 0)]\<rparr>))"

definition bb_Put :: "nat \<Rightarrow> nat list \<Rightarrow> rheap \<Rightarrow> nat list \<times> rheap" where
  "bb_Put x pool h = (x # pool, h\<lparr>bbuf := (bbuf h)[x := (fst (bbuf h ! x), 0)]\<rparr>)"

text \<open>\<open>x.B = make([]byte, n)\<close> when the buffer is shorter than \<open>n\<close>.\<close>

definition bb_ensure :: "nat \<Rightarrow> nat \<Rightarrow> rheap \<Rightarrow> rheap" where
  "bb_ensure x n h =
     (if snd (bbuf h ! x) < n
      then h\<lparr>arrays := arrays h @ [replicate n 0], bbuf := (bbuf h)[x := (length (arrays h), n)]\<rparr>
      else h)"

definition renewBuffer ::
    "(nat list \<Rightarrow> nat option) \<Rightarrow> nat list \<Rightarrow> nat list \<Rightarrow> nat \<Rightarrow> nat \<Rightarrow> rheap \<Rightarrow> nat list \<times> nat list \<times> rheap" where
  "renewBuffer pick buffers pool idx sz h =
     (if snd (bbuf h ! (buffers ! idx)) < sz then
        (case bb_Put (buffers ! idx) pool h of (pool, h) \<Rightarrow>
         case bb_Get pick pool h of (x, pool, h) \<Rightarrow>
           (buffers[idx := x], pool, bb_ensure x sz h))
      else (buffers, pool, h))"

section \<open>The reader\<close>

text \<open>
  One \<open>ipv4.Message\<close> with a single buffer.  The messages are the whole backing array of the Go slice;
  \<open>msgLen\<close> is the length of the slice.  The close callback is nil wherever a reader is created and is
  left out.
\<close>

record message =
  msg_buf :: slice
  msg_OOB :: slice
  msg_Addr :: "net_addr option"
  msg_N :: int
  msg_NN :: int

record batchReader =
  readPos :: "8 word"
  messages :: "message list"
  msgLen :: nat
  buffers :: "nat list"
  oobBuffers :: "nat list"
  br_closed :: bool
  buffersReleased :: bool

text \<open>The reader with the heap and the two package-level pools.\<close>

record rstate =
  rd :: batchReader
  hp :: rheap
  bufferPool :: "nat list"
  oobBufferPool :: "nat list"

definition new_slot ::
    "(nat list \<Rightarrow> nat option) \<Rightarrow> nat list \<times> nat list \<times> rheap \<Rightarrow> (nat \<times> nat \<times> message) \<times> nat list \<times> nat list \<times> rheap" where
  "new_slot pick st =
     (case st of (bp, op, h) \<Rightarrow>
      case bb_Get pick bp h of (x, bp, h) \<Rightarrow>
      (let h = bb_ensure x MaxPacketBufferSize h in
       case bb_Get pick op h of (y, op, h) \<Rightarrow>
       (let h = bb_ensure y MaxPacketBufferSize h in
        ((x, y, \<lparr>msg_buf = bbuf h ! y, msg_OOB = bbuf h ! y, msg_Addr = None, msg_N = 0, msg_NN = 0\<rparr>), bp, op, h))))"

fun new_slots ::
    "(nat list \<Rightarrow> nat option) \<Rightarrow> nat \<Rightarrow> nat list \<times> nat list \<times> rheap \<Rightarrow> (nat \<times> nat \<times> message) list \<times> nat list \<times> nat list \<times> rheap" where
  "new_slots pick 0 st = ([], st)"
| "new_slots pick (Suc n) st =
     (case new_slot pick st of (s, st) \<Rightarrow> case new_slots pick n st of (ss, st) \<Rightarrow> (s # ss, st))"

definition newBatchReader ::
    "platform \<Rightarrow> (nat list \<Rightarrow> nat option) \<Rightarrow> nat list \<Rightarrow> nat list \<Rightarrow> rheap \<Rightarrow> rstate" where
  "newBatchReader P pick bp op h =
     (case new_slots pick (batchSize P) (bp, op, h) of (ss, bp, op, h) \<Rightarrow>
        \<lparr>rd = \<lparr>readPos = word_of_nat (batchSize P), messages = map (snd \<circ> snd) ss, msgLen = batchSize P,
              buffers = map fst ss, oobBuffers = map (fst \<circ> snd) ss,
              br_closed = False, buffersReleased = False\<rparr>,
         hp = h, bufferPool = bp, oobBufferPool = op\<rparr>)"

section \<open>Read\<close>

text \<open>The loop body that renews the buffers of message \<open>i\<close>.\<close>

definition refill :: "(nat list \<Rightarrow> nat option) \<Rightarrow> nat \<Rightarrow> rstate \<Rightarrow> rstate" where
  "refill pick i s =
     (case renewBuffer pick (buffers (rd s)) (bufferPool s) i MaxPacketBufferSize (hp s) of (bs, bp, h) \<Rightarrow>
      case renewBuffer pick (oobBuffers (rd s)) (oobBufferPool s) i oobBufferSize h of (os, op, h) \<Rightarrow>
        s\<lparr>hp := h, bufferPool := bp, oobBufferPool := op,
          rd := (rd s)\<lparr>buffers := bs, oobBuffers := os,
            messages := (messages (rd s))[i := (messages (rd s) ! i)\<lparr>msg_buf := bbuf h ! (bs ! i), msg_OOB := bbuf h ! (os ! i)\<rparr>]\<rparr>\<rparr>)"

text \<open>
  \<open>ReadBatch(ms, 0)\<close>: from the messages and the arrays to the count, the error, and the new messages
  and arrays.
\<close>

type_synonym read_batch = "message list \<Rightarrow> byte list list \<Rightarrow> (int \<times> err option) \<times> message list \<times> byte list list"

definition slice_prefix :: "byte list list \<Rightarrow> slice \<Rightarrow> int \<Rightarrow> byte list go" where
  "slice_prefix arrs s n = slice_to (arrs ! fst s) n"

type_synonym read_out = "(nat \<times> nat \<times> net_addr option \<times> err option) \<times> byte list \<times> byte list"

text \<open>The part after the messages were fetched.\<close>

definition deliver :: "byte list \<Rightarrow> byte list \<Rightarrow> rstate \<Rightarrow> (read_out \<times> rstate) go" where
  "deliver b oob s =
     (let r = rd s in
      if unat (readPos r) < msgLen r then
        (let msg = messages r ! unat (readPos r);
             s = s\<lparr>rd := r\<lparr>readPos := readPos r + 1\<rparr>\<rparr> in
         go_bind (slice_prefix (arrays (hp s)) (msg_buf msg) (msg_N msg)) (\<lambda>data.
         case go_copy b data of (bytesRead, b) \<Rightarrow>
         go_bind (slice_prefix (arrays (hp s)) (msg_OOB msg) (msg_NN msg)) (\<lambda>oobData.
         case go_copy oob oobData of (oobRead, oob) \<Rightarrow>
           Ret (((bytesRead, oobRead, msg_Addr msg, None), b, oob), s))))
      else Panic IndexOutOfRange)"

text \<open>Fetching the next batch; the flag of the result says whether \<open>Read\<close> goes on.\<close>

definition fetch :: "platform \<Rightarrow> (nat list \<Rightarrow> nat option) \<Rightarrow> read_batch \<Rightarrow> rstate \<Rightarrow> (bool \<times> err option \<times> rstate) go" where
  "fetch P pick rb s =
     (let s = fold (refill pick) [0..<unat (readPos (rd s))] (s\<lparr>rd := (rd s)\<lparr>msgLen := batchSize P\<rparr>\<rparr>);
          s = s\<lparr>rd := (rd s)\<lparr>readPos := 0\<rparr>\<rparr> in
      case rb (messages (rd s)) (arrays (hp s)) of ((n, e), ms, arrs) \<Rightarrow>
        (let s = s\<lparr>rd := (rd s)\<lparr>messages := ms\<rparr>, hp := (hp s)\<lparr>arrays := arrs\<rparr>\<rparr> in
         if n = 0 \<or> e \<noteq> None then Ret (False, e, s)
         else if 0 \<le> n \<and> n \<le> int (length ms) then Ret (True, None, s\<lparr>rd := (rd s)\<lparr>msgLen := nat n\<rparr>\<rparr>)
         else Panic SliceOutOfRange))"

definition batchReader_Read ::
    "platform \<Rightarrow> (nat list \<Rightarrow> nat option) \<Rightarrow> read_batch \<Rightarrow> byte list \<Rightarrow> byte list \<Rightarrow> rstate \<Rightarrow> (read_out \<times> rstate) go" where
  "batchReader_Read P pick rb b oob s =
     (if br_closed (rd s) then Ret (((0, 0, None, Some EOF), b, oob), s)
      else if msgLen (rd s) = unat (readPos (rd s)) then
        go_bind (fetch P pick rb s) (\<lambda>(ok, e, s).
          if ok then deliver b oob s else Ret (((0, 0, None, e), b, oob), s))
      else deliver b oob s)"

section \<open>Close\<close>

definition release :: "nat \<Rightarrow> rstate \<Rightarrow> rstate" where
  "release i s =
     (case bb_Put (buffers (rd s) ! i) (bufferPool s) (hp s) of (bp, h) \<Rightarrow>
      case bb_Put (oobBuffers (rd s) ! i) (oobBufferPool s) h of (op, h) \<Rightarrow>
        s\<lparr>hp := h, bufferPool := bp, oobBufferPool := op\<rparr>)"

text \<open>\<open>sysClose\<close> is the result of closing the underlying batch connection.\<close>

definition batchReader_Close :: "platform \<Rightarrow> err option \<Rightarrow> rstate \<Rightarrow> err option \<times> rstate" where
  "batchReader_Close P sysClose s =
     (let s = s\<lparr>rd := (rd s)\<lparr>br_closed := True\<rparr>\<rparr>;
          s = (if buffersReleased (rd s) then s
               else (let s = fold release [0..<batchSize P] s in s\<lparr>rd := (rd s)\<lparr>buffersReleased := True\<rparr>\<rparr>))
      in (sysClose, s))"

section \<open>The invariant of an open reader\<close>

text \<open>
  The reader owns \<open>batchSize\<close> data buffers and as many out-of-band buffers, none of them twice and none
  in a pool, each with an array of its own that is large enough.  Every message from the read position
  on is made of the slices of its own two buffers.
\<close>

definition sl :: "rstate \<Rightarrow> nat \<Rightarrow> slice" where
  "sl s i = bbuf (hp s) ! (buffers (rd s) ! i)"

definition osl :: "rstate \<Rightarrow> nat \<Rightarrow> slice" where
  "osl s i = bbuf (hp s) ! (oobBuffers (rd s) ! i)"

definition own_arrays :: "rstate \<Rightarrow> nat list" where
  "own_arrays s = map (\<lambda>x. fst (bbuf (hp s) ! x)) (buffers (rd s) @ oobBuffers (rd s))"

definition slot_ok :: "rstate \<Rightarrow> nat \<Rightarrow> bool" where
  "slot_ok s i \<longleftrightarrow> msg_buf (messages (rd s) ! i) = sl s i \<and> msg_OOB (messages (rd s) ! i) = osl s i"

definition fits :: "byte list list \<Rightarrow> nat \<Rightarrow> slice \<Rightarrow> bool" where
  "fits arrs n s \<longleftrightarrow> n \<le> snd s \<and> fst s < length arrs \<and> snd s \<le> length (arrs ! fst s)"

definition counts_ok :: "message \<Rightarrow> nat \<Rightarrow> nat \<Rightarrow> bool" where
  "counts_ok m n k \<longleftrightarrow> 0 \<le> msg_N m \<and> msg_N m \<le> int n \<and> 0 \<le> msg_NN m \<and> msg_NN m \<le> int k"

definition owned :: "rstate \<Rightarrow> nat list" where
  "owned s = buffers (rd s) @ oobBuffers (rd s) @ bufferPool s @ oobBufferPool s"

definition reader_inv :: "platform \<Rightarrow> rstate \<Rightarrow> bool" where
  "reader_inv P s \<longleftrightarrow>
     length (messages (rd s)) = batchSize P \<and> length (buffers (rd s)) = batchSize P
     \<and> length (oobBuffers (rd s)) = batchSize P
     \<and> unat (readPos (rd s)) \<le> msgLen (rd s) \<and> msgLen (rd s) \<le> batchSize P
     \<and> distinct (owned s) \<and> (\<forall>x \<in> set (owned s). x < length (bbuf (hp s)))
     \<and> distinct (own_arrays s)
     \<and> (\<forall>i < batchSize P. fits (arrays (hp s)) MaxPacketBufferSize (sl s i) \<and> fits (arrays (hp s)) oobBufferSize (osl s i)
          \<and> counts_ok (messages (rd s) ! i) (snd (sl s i)) (snd (osl s i)))
     \<and> (\<forall>i. unat (readPos (rd s)) \<le> i \<longrightarrow> i < batchSize P \<longrightarrow> slot_ok s i)"

lemma reader_invI:
  assumes "length (messages (rd s)) = batchSize P" "length (buffers (rd s)) = batchSize P"
    "length (oobBuffers (rd s)) = batchSize P"
    and "unat (readPos (rd s)) \<le> msgLen (rd s)" "msgLen (rd s) \<le> batchSize P"
    and "distinct (owned s)" "\<And>x. x \<in> set (owned s) \<Longrightarrow> x < length (bbuf (hp s))" "distinct (own_arrays s)"
    and "\<And>i. i < batchSize P \<Longrightarrow> fits (arrays (hp s)) MaxPacketBufferSize (sl s i)"
    and "\<And>i. i < batchSize P \<Longrightarrow> fits (arrays (hp s)) oobBufferSize (osl s i)"
    and "\<And>i. i < batchSize P \<Longrightarrow> counts_ok (messages (rd s) ! i) (snd (sl s i)) (snd (osl s i))"
    and "\<And>i. unat (readPos (rd s)) \<le> i \<Longrightarrow> i < batchSize P \<Longrightarrow> slot_ok s i"
  shows "reader_inv P s"
  using assms by (simp add: reader_inv_def)

lemma reader_invD:
  assumes "reader_inv P s"
  shows "length (messages (rd s)) = batchSize P" "length (buffers (rd s)) = batchSize P"
    "length (oobBuffers (rd s)) = batchSize P"
    "unat (readPos (rd s)) \<le> msgLen (rd s)" "msgLen (rd s) \<le> batchSize P"
    "distinct (owned s)" "x \<in> set (owned s) \<Longrightarrow> x < length (bbuf (hp s))" "distinct (own_arrays s)"
    "i < batchSize P \<Longrightarrow> fits (arrays (hp s)) MaxPacketBufferSize (sl s i)"
    "i < batchSize P \<Longrightarrow> fits (arrays (hp s)) oobBufferSize (osl s i)"
    "i < batchSize P \<Longrightarrow> counts_ok (messages (rd s) ! i) (snd (sl s i)) (snd (osl s i))"
    "unat (readPos (rd s)) \<le> i \<Longrightarrow> i < batchSize P \<Longrightarrow> slot_ok s i"
  using assms by (simp_all add: reader_inv_def)

text \<open>Under the invariant no buffer is ever too short, so renewing changes nothing but the slices.\<close>

lemma refill_inv:
  assumes "reader_inv P s" and "i < batchSize P"
  shows "refill pick i s = s\<lparr>rd := (rd s)\<lparr>messages :=
     (messages (rd s))[i := (messages (rd s) ! i)\<lparr>msg_buf := sl s i, msg_OOB := osl s i\<rparr>]\<rparr>\<rparr>"
proof -
  have "\<not> snd (sl s i) < MaxPacketBufferSize" "\<not> snd (osl s i) < oobBufferSize"
    using reader_invD(9,10) [OF assms] by (auto simp: fits_def)
  then show ?thesis
    by (simp add: refill_def renewBuffer_def sl_def osl_def)
qed

definition resliced :: "nat \<Rightarrow> rstate \<Rightarrow> message list" where
  "resliced k s = map (\<lambda>i. if i < k then (messages (rd s) ! i)\<lparr>msg_buf := sl s i, msg_OOB := osl s i\<rparr>
     else messages (rd s) ! i) [0..<length (messages (rd s))]"

lemma resliced_Suc:
  assumes "k < length (messages (rd s))"
  shows "resliced (Suc k) s =
    (resliced k s)[k := (resliced k s ! k)\<lparr>msg_buf := sl s k, msg_OOB := osl s k\<rparr>]"
  using assms by (intro nth_equalityI) (auto simp: resliced_def nth_list_update less_Suc_eq)

lemma counts_ok_slices [simp]: "counts_ok (m\<lparr>msg_buf := x, msg_OOB := y\<rparr>) n k = counts_ok m n k"
  by (simp add: counts_ok_def)

text \<open>
  A reader whose messages, position and length changed keeps the invariant if they stay in range.
\<close>

lemma reader_inv_messages:
  assumes inv: "reader_inv P s" and len: "length ms = batchSize P"
    and pos: "unat p \<le> n" "n \<le> batchSize P"
    and arrs: "map length arrs = map length (arrays (hp s))"
    and cnt: "\<And>i. i < batchSize P \<Longrightarrow> counts_ok (ms ! i) (snd (sl s i)) (snd (osl s i))"
    and slot: "\<And>i. unat p \<le> i \<Longrightarrow> i < batchSize P \<Longrightarrow> msg_buf (ms ! i) = sl s i \<and> msg_OOB (ms ! i) = osl s i"
  shows "reader_inv P (s\<lparr>rd := (rd s)\<lparr>readPos := p, messages := ms, msgLen := n\<rparr>, hp := (hp s)\<lparr>arrays := arrs\<rparr>\<rparr>)"
proof -
  have al: "length arrs = length (arrays (hp s))" and
    an: "a < length (arrays (hp s)) \<Longrightarrow> length (arrs ! a) = length (arrays (hp s) ! a)" for a
    using arrs by (metis length_map, metis length_map nth_map)
  let ?t = "s\<lparr>rd := (rd s)\<lparr>readPos := p, messages := ms, msgLen := n\<rparr>, hp := (hp s)\<lparr>arrays := arrs\<rparr>\<rparr>"
  have frame: "sl ?t = sl s" "osl ?t = osl s" "own_arrays ?t = own_arrays s" "owned ?t = owned s"
    by (simp_all add: fun_eq_iff sl_def osl_def own_arrays_def owned_def)
  have fit: "fits arrs k x = fits (arrays (hp s)) k x" for k x
    using an [of "fst x"] by (auto simp: fits_def al)
  note D = reader_invD [OF inv]
  show ?thesis
    by (rule reader_invI) (simp_all add: frame slot_ok_def fit D(2,3,6-10) len pos cnt slot)
qed

lemma refill_all:
  assumes inv: "reader_inv P s" and k: "k \<le> batchSize P"
  shows "fold (refill pick) [0..<k] s = s\<lparr>rd := (rd s)\<lparr>messages := resliced k s\<rparr>\<rparr>"
  using k
proof (induction k)
  case 0
  have "resliced 0 s = messages (rd s)"
    by (simp add: resliced_def map_nth)
  then show ?case by simp
next
  case (Suc k)
  let ?s = "s\<lparr>rd := (rd s)\<lparr>messages := resliced k s\<rparr>\<rparr>"
  have len: "length (messages (rd s)) = batchSize P"
    using inv by (simp add: reader_inv_def)
  have rn: "resliced k s ! i = (if i < k then (messages (rd s) ! i)\<lparr>msg_buf := sl s i, msg_OOB := osl s i\<rparr>
      else messages (rd s) ! i)" if "i < batchSize P" for i
    using that len by (simp add: resliced_def)
  have "reader_inv P (s\<lparr>rd := (rd s)\<lparr>readPos := readPos (rd s), messages := resliced k s, msgLen := msgLen (rd s)\<rparr>,
      hp := (hp s)\<lparr>arrays := arrays (hp s)\<rparr>\<rparr>)"
    by (rule reader_inv_messages [OF inv])
      (use reader_invD(4,5,11,12) [OF inv] len in \<open>simp_all add: rn slot_ok_def, simp add: resliced_def\<close>)
  then have "reader_inv P ?s" by simp
  with Suc show ?case
    using refill_inv [of P ?s k pick] resliced_Suc [of k s] len
    by (simp add: sl_def osl_def)
qed

section \<open>A new reader satisfies the invariant\<close>

text \<open>
  The allocation invariant: the byte buffers \<open>held\<close> so far and those in the pools are distinct; those in
  the pools are empty; those held have an array of their own of the full size.
\<close>

definition alloc_inv :: "nat list \<Rightarrow> nat list \<Rightarrow> nat list \<Rightarrow> rheap \<Rightarrow> bool" where
  "alloc_inv held bp op h \<longleftrightarrow>
     distinct (held @ bp @ op) \<and> (\<forall>x \<in> set (held @ bp @ op). x < length (bbuf h))
     \<and> (\<forall>x \<in> set (bp @ op). snd (bbuf h ! x) = 0)
     \<and> (\<forall>x \<in> set held. snd (bbuf h ! x) = MaxPacketBufferSize \<and> fst (bbuf h ! x) < length (arrays h)
          \<and> length (arrays h ! fst (bbuf h ! x)) = MaxPacketBufferSize)
     \<and> inj_on (\<lambda>x. fst (bbuf h ! x)) (set held)"

lemma alloc_inv_perm:
  "alloc_inv held bp op h \<Longrightarrow> set held' = set held \<Longrightarrow> distinct held' \<Longrightarrow> alloc_inv held' bp op h"
  by (simp add: alloc_inv_def)

lemma alloc_inv_distinct: "alloc_inv held bp op h \<Longrightarrow> distinct held"
  by (simp add: alloc_inv_def)

lemma alloc_inv_swap: "alloc_inv held bp op h \<Longrightarrow> alloc_inv held op bp h"
  by (auto simp: alloc_inv_def)

context buffer_pool
begin

lemma bb_Get_alloc:
  assumes inv: "alloc_inv held bp op h" and get: "bb_Get pick bp h = (x, bp', h1)"
  shows "x \<notin> set held \<union> set bp' \<union> set op \<and> x < length (bbuf h1) \<and> snd (bbuf h1 ! x) = 0
    \<and> distinct (held @ bp' @ op) \<and> set bp' \<subseteq> set bp \<and> arrays h1 = arrays h
    \<and> (\<forall>z < length (bbuf h). bbuf h1 ! z = bbuf h ! z) \<and> length (bbuf h) \<le> length (bbuf h1)"
proof (cases "pick bp")
  case None
  then have "x = length (bbuf h)" "bp' = bp" "h1 = h\<lparr>bbuf := bbuf h @ [(0, 0)]\<rparr>"
    using get by (auto simp: bb_Get_def)
  then show ?thesis using inv by (auto simp: alloc_inv_def nth_append)
next
  case (Some a)
  then have "x = a" "bp' = remove1 a bp" "h1 = h" "a \<in> set bp"
    using get pick_mem [OF Some] by (auto simp: bb_Get_def)
  then show ?thesis using inv by (auto simp: alloc_inv_def dest: notin_set_remove1)
qed

lemma alloc_step:
  assumes inv: "alloc_inv held bp op h" and get: "bb_Get pick bp h = (x, bp', h1)"
  shows "alloc_inv (x # held) bp' op (bb_ensure x MaxPacketBufferSize h1)"
proof -
  note got = bb_Get_alloc [OF inv get]
  have x: "x \<notin> set held \<union> set bp' \<union> set op" "x < length (bbuf h1)" "snd (bbuf h1 ! x) = 0"
    and dis: "distinct (held @ bp' @ op)" and sub: "set bp' \<subseteq> set bp" and arr: "arrays h1 = arrays h"
    and old: "\<And>z. z < length (bbuf h) \<Longrightarrow> bbuf h1 ! z = bbuf h ! z" and len: "length (bbuf h) \<le> length (bbuf h1)"
    using got by blast+
  let ?h = "bb_ensure x MaxPacketBufferSize h1"
  have h: "bbuf ?h = (bbuf h1)[x := (length (arrays h), MaxPacketBufferSize)]"
    "arrays ?h = arrays h @ [replicate MaxPacketBufferSize 0]"
    using x(3) arr by (simp_all add: bb_ensure_def MaxPacketBufferSize_def)
  have z: "bbuf ?h ! z = bbuf h ! z" "z < length (bbuf ?h)" if "z \<in> set (held @ bp' @ op)" for z
  proof -
    have "z \<noteq> x" "z < length (bbuf h)"
      using that x(1) sub inv by (auto simp: alloc_inv_def)
    then show "bbuf ?h ! z = bbuf h ! z" "z < length (bbuf ?h)"
      using old len by (simp_all add: h)
  qed
  have "inj_on (\<lambda>z. fst (bbuf ?h ! z)) (set (x # held))"
  proof -
    have "inj_on (\<lambda>z. fst (bbuf ?h ! z)) (set held)"
      using inv z(1) by (auto simp: alloc_inv_def inj_on_def)
    moreover have "fst (bbuf ?h ! z) \<noteq> length (arrays h)" if "z \<in> set held" for z
      using that z(1) [of z] inv by (auto simp: alloc_inv_def)
    moreover have "fst (bbuf ?h ! x) = length (arrays h)"
      using x(2) by (simp add: h)
    ultimately have "fst (bbuf ?h ! x) \<notin> (\<lambda>z. fst (bbuf ?h ! z)) ` (set held - {x})"
      by force
    with \<open>inj_on (\<lambda>z. fst (bbuf ?h ! z)) (set held)\<close> show ?thesis
      unfolding list.set inj_on_insert by (rule conjI)
  qed
  moreover have "snd (bbuf ?h ! z) = 0" if "z \<in> set (bp' @ op)" for z
    using that z(1) [of z] sub inv by (auto simp: alloc_inv_def)
  moreover have "snd (bbuf ?h ! z) = MaxPacketBufferSize \<and> fst (bbuf ?h ! z) < length (arrays ?h)
      \<and> length (arrays ?h ! fst (bbuf ?h ! z)) = MaxPacketBufferSize" if "z \<in> set (x # held)" for z
  proof (cases "z = x")
    case True
    then show ?thesis using x(2) by (simp add: h)
  next
    case False
    then have "z \<in> set held" using that by simp
    then have "snd (bbuf h ! z) = MaxPacketBufferSize \<and> fst (bbuf h ! z) < length (arrays h)
        \<and> length (arrays h ! fst (bbuf h ! z)) = MaxPacketBufferSize"
      using inv unfolding alloc_inv_def by blast
    then show ?thesis using z(1) [of z] \<open>z \<in> set held\<close> by (simp add: h(2) nth_append)
  qed
  moreover have "\<forall>z \<in> set ((x # held) @ bp' @ op). z < length (bbuf ?h)"
    using z(2) x(2) by (auto simp: h)
  ultimately show ?thesis
    using dis x(1) unfolding alloc_inv_def by simp
qed

lemma new_slot_inv:
  assumes inv: "alloc_inv held bp op h" and new: "new_slot pick (bp, op, h) = ((x, y, m), bp', op', h')"
  shows "alloc_inv (x # y # held) bp' op' h' \<and> msg_N m = 0 \<and> msg_NN m = 0"
proof -
  obtain bp1 h1 where g1: "bb_Get pick bp h = (x, bp1, h1)" "bp' = bp1"
    using new by (auto simp: new_slot_def Let_def split: prod.splits)
  let ?h = "bb_ensure x MaxPacketBufferSize h1"
  obtain h2 where g2: "bb_Get pick op ?h = (y, op', h2)" "h' = bb_ensure y MaxPacketBufferSize h2"
    and m: "msg_N m = 0" "msg_NN m = 0"
    using new g1 by (auto simp: new_slot_def Let_def split: prod.splits)
  have "alloc_inv (y # x # held) op' bp' h'"
    unfolding g2(2) g1(2) by (rule alloc_step [OF alloc_inv_swap [OF alloc_step [OF inv g1(1)]] g2(1)])
  note a = this
  have "alloc_inv (x # y # held) bp' op' h'"
    using alloc_inv_distinct [OF a] by (intro alloc_inv_perm [OF alloc_inv_swap [OF a]]) auto
  with m show ?thesis by simp
qed

lemma new_slots_inv:
  assumes "alloc_inv held bp op h" and "new_slots pick n (bp, op, h) = (ss, bp', op', h')"
  shows "alloc_inv (map fst ss @ map (fst \<circ> snd) ss @ held) bp' op' h' \<and> length ss = n
    \<and> (\<forall>m \<in> set (map (snd \<circ> snd) ss). msg_N m = 0 \<and> msg_NN m = 0)"
  using assms
proof (induction n arbitrary: held bp op h ss)
  case 0
  then show ?case by simp
next
  case (Suc n)
  obtain x y m bp1 op1 h1 where n1: "new_slot pick (bp, op, h) = ((x, y, m), bp1, op1, h1)"
    by (metis prod_cases3)
  obtain ss1 where n2: "new_slots pick n (bp1, op1, h1) = (ss1, bp', op', h')" "ss = (x, y, m) # ss1"
    using Suc.prems(2) n1 by (auto split: prod.splits)
  note s1 = new_slot_inv [OF Suc.prems(1) n1]
  have IH: "alloc_inv (map fst ss1 @ map (fst \<circ> snd) ss1 @ x # y # held) bp' op' h' \<and> length ss1 = n
      \<and> (\<forall>m \<in> set (map (snd \<circ> snd) ss1). msg_N m = 0 \<and> msg_NN m = 0)"
    using Suc.IH [of "x # y # held"] s1 n2(1) by blast
  note a = conjunct1 [OF IH]
  have "alloc_inv (map fst ss @ map (fst \<circ> snd) ss @ held) bp' op' h'"
    by (rule alloc_inv_perm [OF a]) (use alloc_inv_distinct [OF a] in \<open>auto simp: n2(2)\<close>)
  then show ?case using IH s1 n2(2) by (intro conjI) (assumption, simp, simp)
qed

lemma newBatchReader_inv:
  assumes "alloc_inv [] bp op h" and P: "platform_ok P"
  shows "reader_inv P (newBatchReader P pick bp op h)"
proof -
  obtain ss bp' op' h' where n: "new_slots pick (batchSize P) (bp, op, h) = (ss, bp', op', h')"
    by (metis prod_cases3 surj_pair)
  let ?s = "newBatchReader P pick bp op h"
  have s: "buffers (rd ?s) = map fst ss" "oobBuffers (rd ?s) = map (fst \<circ> snd) ss" "messages (rd ?s) = map (snd \<circ> snd) ss"
    "hp ?s = h'" "bufferPool ?s = bp'" "oobBufferPool ?s = op'" "msgLen (rd ?s) = batchSize P"
    "readPos (rd ?s) = word_of_nat (batchSize P)"
    by (simp_all add: newBatchReader_def n)
  have inv: "alloc_inv (map fst ss @ map (fst \<circ> snd) ss) bp' op' h'" and len: "length ss = batchSize P"
    and msgs: "\<forall>m \<in> set (map (snd \<circ> snd) ss). msg_N m = 0 \<and> msg_NN m = 0"
    using new_slots_inv [OF assms(1) n] by auto
  have pos: "unat (readPos (rd ?s)) = batchSize P"
    using P by (simp add: s platform_ok_def unat_of_nat)
  have own: "snd (bbuf h' ! z) = MaxPacketBufferSize \<and> fst (bbuf h' ! z) < length (arrays h')
      \<and> length (arrays h' ! fst (bbuf h' ! z)) = MaxPacketBufferSize" if "z \<in> set (map fst ss @ map (fst \<circ> snd) ss)" for z
    using inv that unfolding alloc_inv_def by blast
  have mem: "map fst ss ! i \<in> set (map fst ss @ map (fst \<circ> snd) ss)" "map (fst \<circ> snd) ss ! i \<in> set (map fst ss @ map (fst \<circ> snd) ss)"
    if "i < batchSize P" for i
    using that len nth_mem [of i "map fst ss"] nth_mem [of i "map (fst \<circ> snd) ss"] by (simp_all del: nth_map)
  show ?thesis
  proof (rule reader_invI)
    show "distinct (owned ?s)" "x \<in> set (owned ?s) \<Longrightarrow> x < length (bbuf (hp ?s))" for x
      using inv by (auto simp: alloc_inv_def owned_def s)
    have "distinct (map (\<lambda>x. fst (bbuf h' ! x)) (map fst ss @ map (fst \<circ> snd) ss))"
      unfolding distinct_map using inv unfolding alloc_inv_def by (metis distinct_append)
    then show "distinct (own_arrays ?s)"
      unfolding own_arrays_def s .
    show "fits (arrays (hp ?s)) MaxPacketBufferSize (sl ?s i)" "fits (arrays (hp ?s)) oobBufferSize (osl ?s i)"
      if "i < batchSize P" for i
      using own [OF mem(1) [OF that]] own [OF mem(2) [OF that]]
      by (simp_all add: fits_def sl_def osl_def s MaxPacketBufferSize_def oobBufferSize_def del: nth_map)
    show "counts_ok (messages (rd ?s) ! i) (snd (sl ?s i)) (snd (osl ?s i))" if "i < batchSize P" for i
      using msgs that len by (simp add: counts_ok_def s)
  qed (use pos len in \<open>simp_all add: s\<close>)
qed

end

end
