(* ===== verification/Batch_Stream.thy ===== *)
theory Batch_Stream
  imports Batch_Reader
begin

text \<open>
  What the batch reader promises: \<open>Read\<close> never fails on a reader in order, successive reads hand out the
  datagrams of every batch of the socket in order, and \<open>Close\<close> gives every buffer back.  The contract of
  \<open>ReadBatch\<close> is the locale \<open>batch_socket\<close>.
\<close>

section \<open>What Read promises\<close>

text \<open>
  A datagram as the reader hands it out; the datagrams a reader has fetched and not yet handed out.
\<close>

type_synonym dgram = "byte list \<times> byte list \<times> net_addr option"

definition dgram_of :: "byte list list \<Rightarrow> message \<Rightarrow> dgram" where
  "dgram_of arrs m = (take (nat (msg_N m)) (arrs ! fst (msg_buf m)), take (nat (msg_NN m)) (arrs ! fst (msg_OOB m)), msg_Addr m)"

definition pending :: "rstate \<Rightarrow> dgram list" where
  "pending s = map (\<lambda>i. dgram_of (arrays (hp s)) (messages (rd s) ! i)) [unat (readPos (rd s))..<msgLen (rd s)]"

text \<open>What the socket is given: messages whose slices are large enough and share no array.\<close>

definition ready :: "platform \<Rightarrow> message list \<Rightarrow> byte list list \<Rightarrow> bool" where
  "ready P ms arrs \<longleftrightarrow>
     length ms = batchSize P \<and> distinct (map (fst \<circ> msg_buf) ms @ map (fst \<circ> msg_OOB) ms)
     \<and> (\<forall>m \<in> set ms. fits arrs MaxPacketBufferSize (msg_buf m) \<and> fits arrs oobBufferSize (msg_OOB m))"

text \<open>
  The documented behaviour of \<open>ReadBatch\<close>: it fills the buffers in place, sets the counts within them,
  and returns a count of messages not larger than it was given.
\<close>

locale batch_socket =
  fixes rb :: read_batch
  assumes frame: "rb ms arrs = ((n, e), ms', arrs') \<Longrightarrow>
      map msg_buf ms' = map msg_buf ms \<and> map msg_OOB ms' = map msg_OOB ms \<and> map length arrs' = map length arrs"
    and count: "rb ms arrs = ((n, e), ms', arrs') \<Longrightarrow> 0 \<le> n \<and> n \<le> int (length ms)"
    and counts: "rb ms arrs = ((n, e), ms', arrs') \<Longrightarrow> i < length ms \<Longrightarrow>
      counts_ok (ms' ! i) (snd (msg_buf (ms ! i))) (snd (msg_OOB (ms ! i)))
      \<or> msg_N (ms' ! i) = msg_N (ms ! i) \<and> msg_NN (ms' ! i) = msg_NN (ms ! i)"

definition yields :: "platform \<Rightarrow> read_batch \<Rightarrow> dgram list \<Rightarrow> bool" where
  "yields P rb ds \<longleftrightarrow> (\<forall>ms arrs. ready P ms arrs \<longrightarrow>
     (case rb ms arrs of ((n, e), ms', arrs') \<Rightarrow>
        n = int (length ds) \<and> e = None \<and> map (dgram_of arrs') (take (length ds) ms') = ds))"

lemma rstate_commute: "s\<lparr>hp := h, rd := r\<rparr> = s\<lparr>rd := r, hp := h\<rparr>"
  by simp

lemma unat_Suc_pos:
  assumes "platform_ok P" and "unat p < n" and "n \<le> batchSize P"
  shows "unat (p + 1 :: 8 word) = Suc (unat p)"
proof -
  have "unat p + 1 < 2 ^ LENGTH(8)"
    using assms by (simp add: platform_ok_def)
  then show ?thesis
    by (simp add: unat_word_ariths)
qed

text \<open>Handing out the next fetched datagram.\<close>

lemma deliver_next:
  assumes P: "platform_ok P" and inv: "reader_inv P s" and p: "pending s = (d, o', a) # ds"
  shows "\<exists>s'. deliver b oob s = Ret (((min (length b) (length d), min (length oob) (length o'), a, None),
        snd (go_copy b d), snd (go_copy oob o')), s')
    \<and> reader_inv P s' \<and> pending s' = ds \<and> br_closed (rd s') = br_closed (rd s)"
proof -
  let ?r = "rd s" and ?h = "hp s"
  let ?i = "unat (readPos ?r)"
  have lt: "?i < msgLen ?r"
    using p by (cases "?i < msgLen ?r") (simp_all add: pending_def)
  then have i: "?i < batchSize P" using reader_invD(5) [OF inv] by simp
  have pos: "unat (readPos ?r + 1) = Suc ?i"
    by (rule unat_Suc_pos [OF P lt reader_invD(5) [OF inv]])
  let ?m = "messages ?r ! ?i"
  have split: "[?i..<msgLen ?r] = ?i # [Suc ?i..<msgLen ?r]"
    using lt by (rule upt_conv_Cons)
  have head: "dgram_of (arrays ?h) ?m = (d, o', a)"
    and tail: "map (\<lambda>i. dgram_of (arrays ?h) (messages ?r ! i)) [Suc ?i..<msgLen ?r] = ds"
    using p unfolding pending_def split by auto
  have slot: "msg_buf ?m = sl s ?i" "msg_OOB ?m = osl s ?i"
    using reader_invD(12) [OF inv _ i] by (simp_all add: slot_ok_def)
  have cnt: "counts_ok ?m (snd (sl s ?i)) (snd (osl s ?i))" and
    fit: "snd (sl s ?i) \<le> length (arrays ?h ! fst (sl s ?i))" "snd (osl s ?i) \<le> length (arrays ?h ! fst (osl s ?i))"
    using reader_invD(9-11) [OF inv i] by (auto simp: fits_def)
  have data: "slice_prefix (arrays ?h) (msg_buf ?m) (msg_N ?m) = Ret d"
    "slice_prefix (arrays ?h) (msg_OOB ?m) (msg_NN ?m) = Ret o'" "msg_Addr ?m = a"
    using head cnt fit unfolding slot [symmetric]
    by (auto simp: slice_prefix_def slice_to_def dgram_of_def counts_ok_def)
  define s' where "s' = s\<lparr>rd := ?r\<lparr>readPos := readPos ?r + 1\<rparr>\<rparr>"
  have "deliver b oob s = Ret (((min (length b) (length d), min (length oob) (length o'), a, None),
        snd (go_copy b d), snd (go_copy oob o')), s')"
    using lt data by (simp add: deliver_def Let_def s'_def go_copy_count [symmetric] case_prod_beta)
  moreover have "reader_inv P (s\<lparr>rd := ?r\<lparr>readPos := readPos ?r + 1, messages := messages ?r, msgLen := msgLen ?r\<rparr>,
      hp := ?h\<lparr>arrays := arrays ?h\<rparr>\<rparr>)"
    by (rule reader_inv_messages [OF inv])
      (use reader_invD [OF inv] lt pos in \<open>simp_all add: slot_ok_def Suc_le_eq\<close>)
  then have "reader_inv P s'" by (simp add: s'_def)
  moreover have "pending s' = ds"
    using tail by (simp add: pending_def s'_def pos)
  ultimately show ?thesis by (auto simp: s'_def)
qed

text \<open>The state in which the socket is called, and what it is given.\<close>

definition offered :: "platform \<Rightarrow> rstate \<Rightarrow> message list" where
  "offered P s = resliced (unat (readPos (rd s))) s"

lemma offered_nth:
  assumes "reader_inv P s" and "i < batchSize P"
  shows "msg_buf (offered P s ! i) = sl s i" "msg_OOB (offered P s ! i) = osl s i"
    "msg_N (offered P s ! i) = msg_N (messages (rd s) ! i)" "msg_NN (offered P s ! i) = msg_NN (messages (rd s) ! i)"
proof -
  have len: "length (messages (rd s)) = batchSize P"
    using reader_invD(1) [OF assms(1)] .
  have o: "offered P s ! i = (if i < unat (readPos (rd s))
      then (messages (rd s) ! i)\<lparr>msg_buf := sl s i, msg_OOB := osl s i\<rparr> else messages (rd s) ! i)"
    using assms(2) by (simp add: offered_def resliced_def len)
  show "msg_buf (offered P s ! i) = sl s i" "msg_OOB (offered P s ! i) = osl s i"
    "msg_N (offered P s ! i) = msg_N (messages (rd s) ! i)" "msg_NN (offered P s ! i) = msg_NN (messages (rd s) ! i)"
    using reader_invD(12) [OF assms(1) _ assms(2)] by (auto simp: o slot_ok_def not_less)
qed

lemma length_offered: "reader_inv P s \<Longrightarrow> length (offered P s) = batchSize P"
  by (simp add: offered_def resliced_def reader_invD(1))

lemma offered_ready:
  assumes inv: "reader_inv P s"
  shows "ready P (offered P s) (arrays (hp s))"
proof -
  have len: "length (buffers (rd s)) = batchSize P" "length (oobBuffers (rd s)) = batchSize P"
    using reader_invD(2,3) [OF inv] by auto
  have "map (fst \<circ> msg_buf) (offered P s) = map (\<lambda>x. fst (bbuf (hp s) ! x)) (buffers (rd s))"
    "map (fst \<circ> msg_OOB) (offered P s) = map (\<lambda>x. fst (bbuf (hp s) ! x)) (oobBuffers (rd s))"
    using offered_nth(1,2) [OF inv]
    by (intro nth_equalityI; simp add: len length_offered [OF inv] sl_def osl_def)+
  then have "distinct (map (fst \<circ> msg_buf) (offered P s) @ map (fst \<circ> msg_OOB) (offered P s))"
    using reader_invD(8) [OF inv] by (simp add: own_arrays_def)
  moreover have "fits (arrays (hp s)) MaxPacketBufferSize (msg_buf m) \<and> fits (arrays (hp s)) oobBufferSize (msg_OOB m)"
    if "m \<in> set (offered P s)" for m
    using that reader_invD(9,10) [OF inv] offered_nth(1,2) [OF inv] length_offered [OF inv]
    by (auto simp: in_set_conv_nth)
  ultimately show ?thesis
    by (simp add: ready_def length_offered [OF inv])
qed

text \<open>\<open>fetch\<close> in terms of what is offered.\<close>

lemma fetch_offered:
  assumes inv: "reader_inv P s" and fin: "unat (readPos (rd s)) = msgLen (rd s)"
  shows "fetch P pick rb s =
    (case rb (offered P s) (arrays (hp s)) of ((n, e), ms, arrs) \<Rightarrow>
      (let t = s\<lparr>rd := (rd s)\<lparr>readPos := 0, messages := ms, msgLen := batchSize P\<rparr>, hp := (hp s)\<lparr>arrays := arrs\<rparr>\<rparr> in
       if n = 0 \<or> e \<noteq> None then Ret (False, e, t)
       else if 0 \<le> n \<and> n \<le> int (length ms) then Ret (True, None, t\<lparr>rd := (rd t)\<lparr>msgLen := nat n\<rparr>\<rparr>)
       else Panic SliceOutOfRange))"
proof -
  let ?s = "s\<lparr>rd := (rd s)\<lparr>msgLen := batchSize P\<rparr>\<rparr>"
  have "reader_inv P (s\<lparr>rd := (rd s)\<lparr>readPos := readPos (rd s), messages := messages (rd s), msgLen := batchSize P\<rparr>,
      hp := (hp s)\<lparr>arrays := arrays (hp s)\<rparr>\<rparr>)"
    by (rule reader_inv_messages [OF inv]) (use reader_invD [OF inv] in \<open>simp_all add: slot_ok_def\<close>)
  then have inv': "reader_inv P ?s" by simp
  have res: "resliced k ?s = resliced k s" for k
    by (simp add: resliced_def sl_def osl_def)
  have k: "unat (readPos (rd ?s)) \<le> batchSize P"
    using reader_invD(4,5) [OF inv] by simp
  have "fold (refill pick) [0..<unat (readPos (rd s))] ?s = ?s\<lparr>rd := (rd ?s)\<lparr>messages := offered P s\<rparr>\<rparr>"
    using refill_all [OF inv' k, of pick] by (simp add: res offered_def)
  then show ?thesis
    by (auto simp: fetch_def Let_def split: prod.splits)
qed

context batch_socket
begin

lemma fetch_inv:
  assumes inv: "reader_inv P s" and rb: "rb (offered P s) (arrays (hp s)) = ((n, e), ms, arrs)" and k: "k \<le> batchSize P"
  shows "reader_inv P (s\<lparr>rd := (rd s)\<lparr>readPos := 0, messages := ms, msgLen := k\<rparr>, hp := (hp s)\<lparr>arrays := arrs\<rparr>\<rparr>)"
proof (rule reader_inv_messages [OF inv])
  have len: "length ms = batchSize P"
    using frame [OF rb] length_offered [OF inv] by (metis length_map)
  then show "length ms = batchSize P" .
  show "map length arrs = map length (arrays (hp s))"
    using frame [OF rb] by simp
  fix i assume i: "i < batchSize P"
  have "msg_buf (ms ! i) = msg_buf (offered P s ! i)" "msg_OOB (ms ! i) = msg_OOB (offered P s ! i)"
    using frame [OF rb] i len length_offered [OF inv] by (metis nth_map)+
  then show "msg_buf (ms ! i) = sl s i \<and> msg_OOB (ms ! i) = osl s i"
    using offered_nth(1,2) [OF inv i] by simp
  show "counts_ok (ms ! i) (snd (sl s i)) (snd (osl s i))"
    using counts [OF rb, of i] i length_offered [OF inv] offered_nth [OF inv i] reader_invD(11) [OF inv i]
    by (auto simp: counts_ok_def)
qed (use k in simp_all)

text \<open>\<open>Read\<close> keeps the invariant, and never panics, whatever the socket answers.\<close>

lemma Read_inv:
  assumes P: "platform_ok P" and inv: "reader_inv P s"
  shows "\<exists>out s'. batchReader_Read P pick rb b oob s = Ret (out, s') \<and> reader_inv P s'
    \<and> br_closed (rd s') = br_closed (rd s) \<and> length (fst (snd out)) = length b \<and> length (snd (snd out)) = length oob
    \<and> fst (fst out) \<le> length b \<and> fst (snd (fst out)) \<le> length oob"
proof -
  have del: "\<exists>out s'. deliver b oob t = Ret (out, s') \<and> reader_inv P s'
      \<and> br_closed (rd s') = br_closed (rd t) \<and> length (fst (snd out)) = length b \<and> length (snd (snd out)) = length oob
      \<and> fst (fst out) \<le> length b \<and> fst (snd (fst out)) \<le> length oob"
    if t: "reader_inv P t" "unat (readPos (rd t)) < msgLen (rd t)" for t
  proof -
    obtain d o' a ds where "pending t = (d, o', a) # ds"
      using t(2) by (cases "pending t") (auto simp: pending_def)
    from deliver_next [OF P t(1) this, of b oob] show ?thesis by fastforce
  qed
  show ?thesis
  proof (cases "br_closed (rd s) \<or> msgLen (rd s) \<noteq> unat (readPos (rd s))")
    case True
    then show ?thesis
      using inv del [OF inv] reader_invD(4) [OF inv] by (auto simp: batchReader_Read_def)
  next
    case False
    obtain n e ms arrs where rb: "rb (offered P s) (arrays (hp s)) = ((n, e), ms, arrs)"
      by (metis prod_cases3 surj_pair)
    let ?t = "\<lambda>k. s\<lparr>rd := (rd s)\<lparr>readPos := 0, messages := ms, msgLen := k\<rparr>, hp := (hp s)\<lparr>arrays := arrs\<rparr>\<rparr>"
    have n: "0 \<le> n" "n \<le> int (batchSize P)" and len: "length ms = batchSize P"
      using count [OF rb] frame [OF rb] length_offered [OF inv] by (simp, simp, metis length_map)
    have f: "fetch P pick rb s = (if n = 0 \<or> e \<noteq> None then Ret (False, e, ?t (batchSize P)) else Ret (True, None, ?t (nat n)))"
      using fetch_offered [OF inv, of pick rb] False rb n len by (simp add: Let_def)
    show ?thesis
    proof (cases "n = 0 \<or> e \<noteq> None")
      case True
      then show ?thesis
        using False f fetch_inv [OF inv rb, of "batchSize P"] by (auto simp: batchReader_Read_def)
    next
      case ok: False
      have "reader_inv P (?t (nat n))"
        using fetch_inv [OF inv rb, of "nat n"] n by simp
      from del [OF this] show ?thesis
        using False f ok n by (auto simp: batchReader_Read_def)
    qed
  qed
qed

text \<open>A batch that the socket yields is handed out next.\<close>

lemma Read_fetch:
  assumes P: "platform_ok P" and inv: "reader_inv P s" and p: "pending s = []" and cl: "\<not> br_closed (rd s)"
    and y: "yields P rb ((d, o', a) # ds)"
  shows "\<exists>s'. batchReader_Read P pick rb b oob s = Ret (((min (length b) (length d), min (length oob) (length o'), a, None),
        snd (go_copy b d), snd (go_copy oob o')), s')
    \<and> reader_inv P s' \<and> pending s' = ds \<and> \<not> br_closed (rd s')"
proof -
  let ?ds = "(d, o', a) # ds"
  have fin: "unat (readPos (rd s)) = msgLen (rd s)"
    using p reader_invD(4) [OF inv] by (auto simp: pending_def)
  obtain n e ms arrs where rb: "rb (offered P s) (arrays (hp s)) = ((n, e), ms, arrs)"
    by (metis prod_cases3 surj_pair)
  have n: "n = int (length ?ds)" "e = None" "map (dgram_of arrs) (take (length ?ds) ms) = ?ds"
    using y [unfolded yields_def, rule_format, OF offered_ready [OF inv]] rb by auto
  have len: "length ms = batchSize P" "n \<le> int (batchSize P)"
    using count [OF rb] frame [OF rb] length_offered [OF inv] by (metis length_map, simp)
  let ?t = "s\<lparr>rd := (rd s)\<lparr>readPos := 0, messages := ms, msgLen := nat n\<rparr>, hp := (hp s)\<lparr>arrays := arrs\<rparr>\<rparr>"
  have inv': "reader_inv P ?t"
    using fetch_inv [OF inv rb, of "nat n"] len(2) by simp
  have "pending ?t = map (\<lambda>i. dgram_of arrs (ms ! i)) [0..<length ?ds]"
  proof -
    have "nat n = length ?ds" using n(1) by simp
    then show ?thesis unfolding pending_def by (simp del: upt_Suc list.size)
  qed
  also have "\<dots> = ?ds"
  proof -
    have "length ?ds \<le> length ms"
      using n(1) len by simp
    then have "map (\<lambda>i. dgram_of arrs (ms ! i)) [0..<length ?ds] = map (dgram_of arrs) (take (length ?ds) ms)"
      by (intro nth_equalityI) (auto simp del: upt_Suc)
    then show ?thesis using n(3) by simp
  qed
  finally have pend: "pending ?t = ?ds" .
  from deliver_next [OF P inv' pend, of b oob] show ?thesis
    using fetch_offered [OF inv fin, of pick rb] rb n(1,2) len cl fin
    by (simp add: batchReader_Read_def Let_def rstate_commute)
qed

end

section \<open>Reading a sequence of batches\<close>

text \<open>
  \<open>n\<close> calls of \<open>Read\<close> with slices of the buffer sizes; a call that has to fetch takes the next answer of
  the socket.
\<close>

definition idle_socket :: read_batch where
  "idle_socket ms arrs = ((0, None), ms, arrs)"

fun read_n ::
    "platform \<Rightarrow> (nat list \<Rightarrow> nat option) \<Rightarrow> nat \<Rightarrow> read_batch list \<Rightarrow> rstate \<Rightarrow> (dgram list \<times> rstate) go" where
  "read_n P pick 0 rbs s = Ret ([], s)"
| "read_n P pick (Suc n) rbs s =
     (let rb = (case rbs of [] \<Rightarrow> idle_socket | rb # _ \<Rightarrow> rb);
          rest = (if msgLen (rd s) = unat (readPos (rd s)) then tl rbs else rbs) in
      go_bind (batchReader_Read P pick rb (replicate MaxPacketBufferSize 0) (replicate MaxPacketBufferSize 0) s)
        (\<lambda>(((k, j, a, e), b, oob), s).
           go_bind (read_n P pick n rest s) (\<lambda>(ds, s). Ret ((take k b, take j oob, a) # ds, s))))"

definition small :: "dgram \<Rightarrow> bool" where
  "small d \<longleftrightarrow> length (fst d) \<le> MaxPacketBufferSize \<and> length (fst (snd d)) \<le> MaxPacketBufferSize"

lemma take_copy: "length d \<le> n \<Longrightarrow> take (min n (length d)) (snd (go_copy (replicate n 0) d)) = d"
  using go_copy_prefix [of "replicate n 0" d] by (simp add: go_copy_count)

lemma read_pending:
  assumes P: "platform_ok P" and inv: "reader_inv P s" and cl: "\<not> br_closed (rd s)" and ps: "\<forall>d \<in> set (pending s). small d"
    and rest: "\<And>t. reader_inv P t \<Longrightarrow> \<not> br_closed (rd t) \<Longrightarrow> pending t = [] \<Longrightarrow>
      \<exists>s'. read_n P pick k rbs t = Ret (ds, s') \<and> pending s' = []"
  shows "\<exists>s'. read_n P pick (length (pending s) + k) rbs s = Ret (pending s @ ds, s') \<and> pending s' = []"
  using inv cl ps
proof (induction "pending s" arbitrary: s)
  case Nil
  then show ?case using rest by simp
next
  case (Cons x ps)
  obtain d o' a where x: "x = (d, o', a)" by (cases x)
  have p: "pending s = (d, o', a) # ps" using Cons.hyps(2) x by simp
  have ne: "msgLen (rd s) \<noteq> unat (readPos (rd s))"
    using p by (auto simp: pending_def)
  have sm: "length d \<le> MaxPacketBufferSize" "length o' \<le> MaxPacketBufferSize"
    using Cons.prems(3) p by (auto simp: small_def)
  let ?z = "replicate MaxPacketBufferSize (0 :: byte)"
  obtain t where t: "deliver ?z ?z s = Ret (((min (length ?z) (length d), min (length ?z) (length o'), a, None),
        snd (go_copy ?z d), snd (go_copy ?z o')), t)" "reader_inv P t" "pending t = ps" "\<not> br_closed (rd t)"
    using deliver_next [OF P Cons.prems(1) p, of ?z ?z] Cons.prems(2) by blast
  obtain s' where "read_n P pick (length ps + k) rbs t = Ret (ps @ ds, s')" "pending s' = []"
    using Cons.hyps(1) [of t] t Cons.prems(3) p by auto
  then show ?case
    using t(1) ne Cons.prems(2) p take_copy [OF sm(1)] take_copy [OF sm(2)]
    by (simp add: batchReader_Read_def)
qed

lemma read_batches:
  assumes P: "platform_ok P" and "list_all2 (\<lambda>rb ds. batch_socket rb \<and> yields P rb ds \<and> ds \<noteq> [] \<and> (\<forall>d \<in> set ds. small d)) rbs dss"
    and "reader_inv P s" and "\<not> br_closed (rd s)" and "pending s = []"
  shows "\<exists>s'. read_n P pick (length (concat dss)) rbs s = Ret (concat dss, s') \<and> pending s' = []"
  using assms(2-)
proof (induction dss arbitrary: rbs s rule: list.induct)
  case Nil
  then show ?case by simp
next
  case (Cons ds dss)
  obtain rb rbs' where rbs: "rbs = rb # rbs'" using Cons.prems(1) by (cases rbs) auto
  have rb: "batch_socket rb" "yields P rb ds" "ds \<noteq> []" "\<forall>d \<in> set ds. small d"
    and rest: "list_all2 (\<lambda>rb ds. batch_socket rb \<and> yields P rb ds \<and> ds \<noteq> [] \<and> (\<forall>d \<in> set ds. small d)) rbs' dss"
    using Cons.prems(1) by (auto simp: rbs)
  obtain d o' a ps where ds: "ds = (d, o', a) # ps"
    using rb(3) by (cases ds) auto
  have sm: "length d \<le> MaxPacketBufferSize" "length o' \<le> MaxPacketBufferSize"
    using rb(4) ds by (auto simp: small_def)
  let ?z = "replicate MaxPacketBufferSize (0 :: byte)"
  obtain t where t: "batchReader_Read P pick rb ?z ?z s = Ret (((min (length ?z) (length d), min (length ?z) (length o'), a, None),
        snd (go_copy ?z d), snd (go_copy ?z o')), t)" "reader_inv P t" "pending t = ps" "\<not> br_closed (rd t)"
    using batch_socket.Read_fetch [OF rb(1) P Cons.prems(2,4,3), of d o' a ps pick ?z ?z] rb(2) ds by blast
  have "msgLen (rd s) = unat (readPos (rd s))"
    using Cons.prems(4) reader_invD(4) [OF Cons.prems(2)] by (auto simp: pending_def)
  moreover obtain s' where "read_n P pick (length ps + length (concat dss)) rbs' t = Ret (ps @ concat dss, s')" "pending s' = []"
    using read_pending [OF P t(2,4), where k = "length (concat dss)" and rbs = rbs' and ds = "concat dss" and pick = pick]
      Cons.IH [OF rest] rb(4) t(3) ds by auto
  ultimately show ?case
    using t(1) ds take_copy [OF sm(1)] take_copy [OF sm(2)] by (simp add: rbs)
qed

section \<open>A socket that holds datagrams\<close>

text \<open>It writes each datagram into the next message, cut to the size of the slices.\<close>

definition write_slice :: "slice \<Rightarrow> byte list \<Rightarrow> byte list list \<Rightarrow> byte list list" where
  "write_slice sc d arrs =
     arrs[fst sc := snd (go_copy (take (snd sc) (arrs ! fst sc)) d) @ drop (snd sc) (arrs ! fst sc)]"

fun recv_list :: "dgram list \<Rightarrow> message list \<Rightarrow> byte list list \<Rightarrow> nat \<times> message list \<times> byte list list" where
  "recv_list ((d, ob, a) # ds) (m # ms) arrs =
     (let m' = m\<lparr>msg_N := int (min (length d) (snd (msg_buf m))), msg_NN := int (min (length ob) (snd (msg_OOB m))),
                 msg_Addr := a\<rparr>;
          arrs = write_slice (msg_OOB m) ob (write_slice (msg_buf m) d arrs)
      in case recv_list ds ms arrs of (n, ms', arrs') \<Rightarrow> (Suc n, m' # ms', arrs'))"
| "recv_list ds ms arrs = (0, ms, arrs)"

definition recv_batch :: "dgram list \<Rightarrow> read_batch" where
  "recv_batch ds ms arrs = (case recv_list ds ms arrs of (n, ms', arrs') \<Rightarrow> ((int n, None), ms', arrs'))"

lemma length_write_slice [simp]: "length (write_slice sc d arrs) = length arrs"
  by (simp add: write_slice_def)

lemma map_length_write_slice [simp]: "map length (write_slice sc d arrs) = map length arrs"
proof (cases "fst sc < length arrs")
  case True
  then show ?thesis by (simp add: write_slice_def map_update list_update_same_conv)
next
  case False
  then show ?thesis by (simp add: write_slice_def list_update_beyond)
qed

lemma write_slice_other: "a \<noteq> fst sc \<Longrightarrow> write_slice sc d arrs ! a = arrs ! a"
  by (simp add: write_slice_def)

lemma write_slice_content:
  assumes "fits arrs k sc" and "length d \<le> k"
  shows "take (length d) (write_slice sc d arrs ! fst sc) = d"
proof -
  have "length d \<le> length (take (snd sc) (arrs ! fst sc))" "fst sc < length arrs"
    using assms by (auto simp: fits_def)
  then show ?thesis
    by (simp add: write_slice_def go_copy_def Let_def min_def)
qed

lemma recv_list_frame:
  "recv_list ds ms arrs = (n, ms', arrs') \<Longrightarrow>
     map msg_buf ms' = map msg_buf ms \<and> map msg_OOB ms' = map msg_OOB ms \<and> map length arrs' = map length arrs
     \<and> n \<le> length ms \<and> length ms' = length ms
     \<and> (\<forall>i < length ms. counts_ok (ms' ! i) (snd (msg_buf (ms ! i))) (snd (msg_OOB (ms ! i)))
        \<or> msg_N (ms' ! i) = msg_N (ms ! i) \<and> msg_NN (ms' ! i) = msg_NN (ms ! i))"
proof (induction ds ms arrs arbitrary: n ms' arrs' rule: recv_list.induct)
  case (1 d ob a ds m ms arrs)
  let ?a2 = "write_slice (msg_OOB m) ob (write_slice (msg_buf m) d arrs)"
  let ?m = "m\<lparr>msg_N := int (min (length d) (snd (msg_buf m))), msg_NN := int (min (length ob) (snd (msg_OOB m))),
      msg_Addr := a\<rparr>"
  obtain k ms1 where r: "recv_list ds ms ?a2 = (k, ms1, arrs')" "n = Suc k" "ms' = ?m # ms1"
    using "1.prems" by (auto simp: Let_def split: prod.splits)
  note IH = "1.IH" [OF refl refl r(1)]
  have "counts_ok ?m (snd (msg_buf m)) (snd (msg_OOB m))"
    by (simp add: counts_ok_def)
  then show ?case
    using IH by (simp add: r(2,3) All_less_Suc2)
qed auto

interpretation held: batch_socket "recv_batch ds" for ds
proof unfold_locales
  fix ms arrs n e ms' arrs' i
  assume "recv_batch ds ms arrs = ((n, e), ms', arrs')"
  then obtain k where k: "recv_list ds ms arrs = (k, ms', arrs')" "n = int k"
    by (auto simp: recv_batch_def split: prod.splits)
  from recv_list_frame [OF k(1)] show "map msg_buf ms' = map msg_buf ms \<and> map msg_OOB ms' = map msg_OOB ms
      \<and> map length arrs' = map length arrs" "0 \<le> n \<and> n \<le> int (length ms)"
    by (simp_all add: k(2))
  from recv_list_frame [OF k(1)] show "i < length ms \<Longrightarrow> counts_ok (ms' ! i) (snd (msg_buf (ms ! i))) (snd (msg_OOB (ms ! i)))
      \<or> msg_N (ms' ! i) = msg_N (ms ! i) \<and> msg_NN (ms' ! i) = msg_NN (ms ! i)"
    by blast
qed

lemma recv_list_other:
  "recv_list ds ms arrs = (n, ms', arrs') \<Longrightarrow> x \<notin> set (map (fst \<circ> msg_buf) ms) \<union> set (map (fst \<circ> msg_OOB) ms) \<Longrightarrow>
     arrs' ! x = arrs ! x"
proof (induction ds ms arrs arbitrary: n ms' arrs' rule: recv_list.induct)
  case (1 d ob a ds m ms arrs)
  then show ?case by (auto simp: Let_def write_slice_other split: prod.splits)
qed auto

lemma recv_list_yields:
  assumes "recv_list ds ms arrs = (n, ms', arrs')" and "length ds \<le> length ms"
    and "distinct (map (fst \<circ> msg_buf) ms @ map (fst \<circ> msg_OOB) ms)"
    and "\<forall>m \<in> set ms. fits arrs MaxPacketBufferSize (msg_buf m) \<and> fits arrs oobBufferSize (msg_OOB m)"
    and "\<forall>(d, ob, a) \<in> set ds. length d \<le> MaxPacketBufferSize \<and> length ob \<le> oobBufferSize"
  shows "n = length ds \<and> map (dgram_of arrs') (take (length ds) ms') = ds"
  using assms
proof (induction ds ms arrs arbitrary: n ms' arrs' rule: recv_list.induct)
  case (1 d ob a ds m ms arrs)
  let ?a1 = "write_slice (msg_buf m) d arrs"
  let ?a2 = "write_slice (msg_OOB m) ob ?a1"
  obtain k ms1 where r: "recv_list ds ms ?a2 = (k, ms1, arrs')" "n = Suc k"
    "ms' = m\<lparr>msg_N := int (min (length d) (snd (msg_buf m))), msg_NN := int (min (length ob) (snd (msg_OOB m))),
      msg_Addr := a\<rparr> # ms1"
    using "1.prems"(1) by (auto simp: Let_def split: prod.splits)
  have fit: "fits ?a2 j sc = fits arrs j sc" "fits ?a1 j sc = fits arrs j sc" for j sc
  proof -
    have "length (?a2 ! fst sc) = length (arrs ! fst sc)" "length (?a1 ! fst sc) = length (arrs ! fst sc)" if "fst sc < length arrs"
      using that map_length_write_slice [of "msg_OOB m" ob ?a1] map_length_write_slice [of "msg_buf m" d arrs]
      by (metis length_write_slice nth_map)+
    then show "fits ?a2 j sc = fits arrs j sc" "fits ?a1 j sc = fits arrs j sc"
      by (auto simp: fits_def)
  qed
  have IH: "k = length ds \<and> map (dgram_of arrs') (take (length ds) ms1) = ds"
    using "1.prems" by (intro "1.IH" [OF refl refl r(1)]) (auto simp: fit)
  have m: "fits arrs MaxPacketBufferSize (msg_buf m)" "fits arrs oobBufferSize (msg_OOB m)"
    "length d \<le> MaxPacketBufferSize" "length ob \<le> oobBufferSize" "fst (msg_buf m) \<noteq> fst (msg_OOB m)"
    using "1.prems" by auto
  have "arrs' ! fst (msg_buf m) = ?a1 ! fst (msg_buf m)" "arrs' ! fst (msg_OOB m) = ?a2 ! fst (msg_OOB m)"
    using recv_list_other [OF r(1)] "1.prems"(3) m(5) by (auto simp: write_slice_other)
  then have "take (length d) (arrs' ! fst (msg_buf m)) = d" "take (length ob) (arrs' ! fst (msg_OOB m)) = ob"
    using write_slice_content [OF m(1,3)] write_slice_content [of ?a1 oobBufferSize "msg_OOB m" ob] m(2,4)
    by (simp_all add: fit)
  moreover have "min (length d) (snd (msg_buf m)) = length d" "min (length ob) (snd (msg_OOB m)) = length ob"
    using m by (auto simp: fits_def)
  ultimately have "dgram_of arrs' (hd ms') = (d, ob, a)"
    using r(3) by (simp add: dgram_of_def)
  then show ?case
    using IH r(2,3) by simp
qed auto

lemma recv_batch_yields:
  assumes "length ds \<le> batchSize P" and "\<forall>(d, ob, a) \<in> set ds. length d \<le> MaxPacketBufferSize \<and> length ob \<le> oobBufferSize"
  shows "yields P (recv_batch ds) ds"
  unfolding yields_def
proof (intro allI impI)
  fix ms arrs
  assume r: "ready P ms arrs"
  obtain n ms' arrs' where l: "recv_list ds ms arrs = (n, ms', arrs')"
    by (metis prod_cases3)
  have "n = length ds \<and> map (dgram_of arrs') (take (length ds) ms') = ds"
    using r assms by (intro recv_list_yields [OF l]) (auto simp: ready_def)
  then show "case recv_batch ds ms arrs of ((n, e), ms', arrs') \<Rightarrow>
      n = int (length ds) \<and> e = None \<and> map (dgram_of arrs') (take (length ds) ms') = ds"
    by (simp add: recv_batch_def l)
qed

text \<open>A socket whose reads fail.\<close>

definition fail_socket :: "err \<Rightarrow> read_batch" where
  "fail_socket e ms arrs = ((0, Some e), ms, arrs)"

interpretation failing: batch_socket "fail_socket e" for e
  by unfold_locales (auto simp: fail_socket_def)

section \<open>Closing\<close>

lemma release_fold:
  assumes "k \<le> length (buffers (rd s))" and "k \<le> length (oobBuffers (rd s))"
  shows "rd (fold release [0..<k] s) = rd s
    \<and> bufferPool (fold release [0..<k] s) = rev (take k (buffers (rd s))) @ bufferPool s
    \<and> oobBufferPool (fold release [0..<k] s) = rev (take k (oobBuffers (rd s))) @ oobBufferPool s"
  using assms
proof (induction k)
  case (Suc k)
  then show ?case
    by (simp add: release_def bb_Put_def take_Suc_conv_app_nth split: prod.splits)
qed simp

lemma Close_pools:
  assumes "reader_inv P s" and "\<not> buffersReleased (rd s)"
  shows "bufferPool (snd (batchReader_Close P e s)) = rev (buffers (rd s)) @ bufferPool s
    \<and> oobBufferPool (snd (batchReader_Close P e s)) = rev (oobBuffers (rd s)) @ oobBufferPool s
    \<and> buffersReleased (rd (snd (batchReader_Close P e s))) \<and> br_closed (rd (snd (batchReader_Close P e s)))"
  using release_fold [of "batchSize P" "s\<lparr>rd := (rd s)\<lparr>br_closed := True\<rparr>\<rparr>"] reader_invD(2,3) [OF assms(1)] assms(2)
  by (simp add: batchReader_Close_def Let_def)

lemma new_reader_stream:
  assumes "buffer_pool pick" and "alloc_inv [] bp op h" and "platform_ok P"
    and "list_all2 (\<lambda>rb ds. batch_socket rb \<and> yields P rb ds \<and> ds \<noteq> [] \<and> (\<forall>d \<in> set ds. small d)) rbs dss"
  shows "\<exists>s. read_n P pick (length (concat dss)) rbs (newBatchReader P pick bp op h) = Ret (concat dss, s) \<and> pending s = []"
proof -
  let ?s = "newBatchReader P pick bp op h"
  have "reader_inv P ?s"
    by (rule buffer_pool.newBatchReader_inv [OF assms(1-3)])
  moreover have "\<not> br_closed (rd ?s)" "pending ?s = []"
    using assms(3) by (auto simp: newBatchReader_def pending_def platform_ok_def unat_of_nat split: prod.splits)
  ultimately show ?thesis
    using read_batches [OF assms(3,4)] by blast
qed

section \<open>Properties\<close>

text \<open>
  C12: A new batch reader hands out the datagrams of every batch the socket yields, whole and in order:
  reading as often as there are datagrams returns exactly the concatenation of the batches, although
  its messages first alias the wrong buffers and are refilled batch by batch.
\<close>

theorem batch_reader_stream:
  assumes "buffer_pool pick" and "alloc_inv [] bp op h" and "platform_ok P"
    and "list_all2 (\<lambda>rb ds. batch_socket rb \<and> yields P rb ds \<and> ds \<noteq> [] \<and> (\<forall>d \<in> set ds. small d)) rbs dss"
  shows "\<exists>s. read_n P pick (length (concat dss)) rbs (newBatchReader P pick bp op h) = Ret (concat dss, s) \<and> pending s = []"
  using assms by (rule new_reader_stream)

theorem batch_reader_stream_witness:
  "\<exists>s. read_n linux first_fit 3
      [recv_batch [([1], [], None), ([2, 3], [9], None)], recv_batch [([], [], None)]]
      (newBatchReader linux first_fit [] [] \<lparr>arrays = [], bbuf = []\<rparr>)
    = Ret ([([1], [], None), ([2, 3], [9], None), ([], [], None)], s) \<and> pending s = []"
proof -
  let ?dss = "[[([1], [], None), ([2, 3], [9], None)], [([], [], None)]] :: dgram list list"
  have ok: "list_all2 (\<lambda>rb ds. batch_socket rb \<and> yields linux rb ds \<and> ds \<noteq> [] \<and> (\<forall>d \<in> set ds. small d)) (map recv_batch ?dss) ?dss"
    using held.batch_socket_axioms
    by (auto intro!: recv_batch_yields simp: small_def linux_def MaxPacketBufferSize_def oobBufferSize_def)
  have "alloc_inv [] [] [] \<lparr>arrays = [], bbuf = []\<rparr>"
    by (simp add: alloc_inv_def)
  from batch_reader_stream [OF ffit.buffer_pool_axioms this platforms_ok(1) ok] show ?thesis
    by (simp add: numeral_3_eq_3)
qed



text \<open>
  C35: After \<open>ReadBatch\<close> fails, or returns no message, the reader believes that it holds a full batch:
  the following \<open>Read\<close> does not ask the socket but returns whatever the first message last held, with a
  nil error.
\<close>

theorem batch_reader_stale_after_error:
  assumes "batch_socket rb" and "platform_ok P" and inv: "reader_inv P s" and "\<not> br_closed (rd s)" and "pending s = []"
    and rb: "rb (offered P s) (arrays (hp s)) = ((n, e), ms, arrs)" and "n = 0 \<or> e \<noteq> None"
  shows "\<exists>s'. batchReader_Read P pick rb b oob s = Ret (((0, 0, None, e), b, oob), s') \<and> length (pending s') = batchSize P
    \<and> (\<forall>rb' b' oob'. \<exists>k j s''. batchReader_Read P pick rb' b' oob' s' =
        Ret (((k, j, msg_Addr (ms ! 0), None), snd (go_copy b' (fst (dgram_of arrs (ms ! 0)))),
             snd (go_copy oob' (fst (snd (dgram_of arrs (ms ! 0)))))), s''))"
proof -
  let ?s = "s\<lparr>rd := (rd s)\<lparr>readPos := 0, messages := ms, msgLen := batchSize P\<rparr>, hp := (hp s)\<lparr>arrays := arrs\<rparr>\<rparr>"
  have fin: "unat (readPos (rd s)) = msgLen (rd s)"
    using assms(5) reader_invD(4) [OF inv] by (auto simp: pending_def)
  have read: "batchReader_Read P pick rb b oob s = Ret (((0, 0, None, e), b, oob), ?s)"
    using fetch_offered [OF inv fin, of pick rb] rb assms(4,7) fin by (simp add: batchReader_Read_def Let_def)
  have inv': "reader_inv P ?s"
    by (rule batch_socket.fetch_inv [OF assms(1) inv rb order_refl])
  have len: "length (pending ?s) = batchSize P"
    by (simp add: pending_def)
  then have pend: "pending ?s = dgram_of arrs (ms ! 0) # tl (pending ?s)"
    using assms(2) by (cases "batchSize P") (auto simp: pending_def upt_conv_Cons platform_ok_def simp del: upt_Suc)
  obtain d o' a where dg: "dgram_of arrs (ms ! 0) = (d, o', a)" by (cases "dgram_of arrs (ms ! 0)")
  then have a: "a = msg_Addr (ms ! 0)"
    by (simp add: dgram_of_def)
  have "\<exists>k j s''. batchReader_Read P pick rb' b' oob' ?s = Ret (((k, j, a, None), snd (go_copy b' d), snd (go_copy oob' o')), s'')"
    for rb' b' oob'
    using deliver_next [OF assms(2) inv' pend [unfolded dg], of b' oob'] assms(2,4)
    by (auto simp: batchReader_Read_def platform_ok_def)
  then show ?thesis
    using read len dg a by auto
qed

theorem batch_reader_stale_after_error_witness:
  "\<exists>s'. batchReader_Read linux first_fit (fail_socket EOF) [] [] (newBatchReader linux first_fit [] [] \<lparr>arrays = [], bbuf = []\<rparr>)
      = Ret (((0, 0, None, Some EOF), [], []), s') \<and> length (pending s') = 8
    \<and> (\<exists>k j s'' m. batchReader_Read linux first_fit (fail_socket EOF) [] [] s' = Ret (((k, j, m, None), [], []), s''))"
proof -
  let ?s = "newBatchReader linux first_fit [] [] \<lparr>arrays = [], bbuf = []\<rparr>"
  have "alloc_inv [] [] [] \<lparr>arrays = [], bbuf = []\<rparr>"
    by (simp add: alloc_inv_def)
  then have inv: "reader_inv linux ?s"
    by (rule ffit.newBatchReader_inv) simp
  have "\<not> br_closed (rd ?s)" "pending ?s = []"
    by (auto simp: newBatchReader_def pending_def linux_def split: prod.splits)
  from batch_reader_stale_after_error [OF failing.batch_socket_axioms platforms_ok(1) inv this, of EOF 0 "Some EOF"
      "offered linux ?s" "arrays (hp ?s)" first_fit "[]" "[]"]
  obtain s' where s': "batchReader_Read linux first_fit (fail_socket EOF) [] [] ?s = Ret (((0, 0, None, Some EOF), [], []), s')"
    "length (pending s') = batchSize linux"
    "\<And>rb' b' oob'. \<exists>k j s''. batchReader_Read linux first_fit rb' b' oob' s' =
        Ret (((k, j, msg_Addr (offered linux ?s ! 0), None), snd (go_copy b' (fst (dgram_of (arrays (hp ?s)) (offered linux ?s ! 0)))),
             snd (go_copy oob' (fst (snd (dgram_of (arrays (hp ?s)) (offered linux ?s ! 0)))))), s'')"
    by (auto simp: fail_socket_def)
  have "\<exists>k j s'' m. batchReader_Read linux first_fit (fail_socket EOF) [] [] s' = Ret (((k, j, m, None), [], []), s'')"
    using s'(3) [of "fail_socket EOF" "[]" "[]"] by (auto simp: go_copy_def)
  then show ?thesis
    using s' by (auto simp: linux_def)
qed

text \<open>
  C32: \<open>Close\<close> gives every buffer of the reader back to the pool it came from, once: afterwards no buffer
  is in the pools twice, closing again changes neither pool, and \<open>Read\<close> returns the closed error without
  touching a buffer.
\<close>

theorem batch_reader_close:
  assumes inv: "reader_inv P s" and "\<not> buffersReleased (rd s)" and s': "batchReader_Close P e s = (e', s')"
  shows "e' = e \<and> set (bufferPool s') = set (buffers (rd s)) \<union> set (bufferPool s)
    \<and> set (oobBufferPool s') = set (oobBuffers (rd s)) \<union> set (oobBufferPool s)
    \<and> distinct (bufferPool s' @ oobBufferPool s')
    \<and> batchReader_Close P e2 s' = (e2, s')
    \<and> batchReader_Read P pick rb b oob s' = Ret (((0, 0, None, Some EOF), b, oob), s')"
proof -
  have e: "e' = e" using s' by (simp add: batchReader_Close_def Let_def)
  have pools: "bufferPool s' = rev (buffers (rd s)) @ bufferPool s" "oobBufferPool s' = rev (oobBuffers (rd s)) @ oobBufferPool s"
    and flags: "buffersReleased (rd s')" "br_closed (rd s')"
    using Close_pools [OF assms(1,2), of e] s' by simp_all
  have "distinct (bufferPool s' @ oobBufferPool s')"
    using reader_invD(6) [OF inv] by (auto simp: pools owned_def)
  moreover have "batchReader_Close P e2 s' = (e2, s')"
    using flags by (simp add: batchReader_Close_def Let_def)
  moreover have "batchReader_Read P pick rb b oob s' = Ret (((0, 0, None, Some EOF), b, oob), s')"
    using flags by (simp add: batchReader_Read_def)
  ultimately show ?thesis
    using pools e by simp
qed

theorem batch_reader_close_witness:
  "\<exists>s'. batchReader_Close linux None (newBatchReader linux first_fit [] [] \<lparr>arrays = [], bbuf = []\<rparr>) = (None, s')
    \<and> distinct (bufferPool s' @ oobBufferPool s')
    \<and> batchReader_Read linux first_fit idle_socket [] [] s' = Ret (((0, 0, None, Some EOF), [], []), s')"
proof -
  let ?s = "newBatchReader linux first_fit [] [] \<lparr>arrays = [], bbuf = []\<rparr>"
  have "alloc_inv [] [] [] \<lparr>arrays = [], bbuf = []\<rparr>"
    by (simp add: alloc_inv_def)
  then have inv: "reader_inv linux ?s"
    by (rule ffit.newBatchReader_inv) simp
  have rel: "\<not> buffersReleased (rd ?s)"
    by (simp add: newBatchReader_def split: prod.splits)
  obtain e' s' where s': "batchReader_Close linux None ?s = (e', s')"
    by fastforce
  from batch_reader_close [OF inv rel s', of None first_fit idle_socket "[]" "[]"] s' show ?thesis
    by blast
qed

end
