(* ===== verification/Oob_Writer.thy ===== *)
theory Oob_Writer
  imports Batch_Stream
begin

text \<open>
  The two writers of \<open>sys_conn_oob_writer.go\<close>: the batch writer, on the heap of arrays and byte buffers
  of \<open>Batch_Reader\<close>, and the basic writer.  \<open>WriteBatch\<close> is a parameter; the arguments it is called with
  are recorded in the state, since they are all a peer can ever see of a batch writer.
\<close>

section \<open>The batch writer\<close>

text \<open>
  A \<open>message\<close> shares its buffer list with every copy of it, so assigning \<open>msg.Buffers[0]\<close> through a copy
  changes the message in the queue; \<open>msg.OOB\<close> and \<open>msg.Addr\<close> of a copy are its own.  The zero time of
  \<open>lastWrite\<close> is \<open>None\<close>.
\<close>

record batchWriter =
  w_isConnected :: bool
  writePos :: "8 word"
  lastWrite :: "int option"
  w_messages :: "message list"
  w_buffers :: "nat list"
  w_oobBuffers :: "nat list"
  w_closed :: bool
  w_buffersReleased :: bool

record wstate =
  wr :: batchWriter
  w_hp :: rheap
  w_bufferPool :: "nat list"
  w_oobBufferPool :: "nat list"
  w_batches :: "message list list"

type_synonym write_batch = "message list \<Rightarrow> byte list list \<Rightarrow> int \<times> err option"

definition newBatchWriter ::
    "platform \<Rightarrow> (nat list \<Rightarrow> nat option) \<Rightarrow> bool \<Rightarrow> nat list \<Rightarrow> nat list \<Rightarrow> rheap \<Rightarrow> wstate" where
  "newBatchWriter P pick isConnected bp op h =
     (case new_slots pick (batchSize P) (bp, op, h) of (ss, bp, op, h) \<Rightarrow>
        \<lparr>wr = \<lparr>w_isConnected = isConnected, writePos = word_of_nat (batchSize P), lastWrite = None,
              w_messages = map (snd \<circ> snd) ss, w_buffers = map fst ss, w_oobBuffers = map (fst \<circ> snd) ss,
              w_closed = False, w_buffersReleased = False\<rparr>,
         w_hp = h, w_bufferPool = bp, w_oobBufferPool = op, w_batches = []\<rparr>)"

text \<open>The loop body that renews the buffers of message \<open>i\<close> after a flush.\<close>

definition w_refill :: "(nat list \<Rightarrow> nat option) \<Rightarrow> nat \<Rightarrow> wstate \<Rightarrow> wstate" where
  "w_refill pick i s =
     (case renewBuffer pick (w_buffers (wr s)) (w_bufferPool s) i MaxPacketBufferSize (w_hp s) of (bs, bp, h) \<Rightarrow>
      case renewBuffer pick (w_oobBuffers (wr s)) (w_oobBufferPool s) i oobBufferSize h of (os, op, h) \<Rightarrow>
        s\<lparr>w_hp := h, w_bufferPool := bp, w_oobBufferPool := op,
          wr := (wr s)\<lparr>w_buffers := bs, w_oobBuffers := os,
            w_messages := (w_messages (wr s))[i := (w_messages (wr s) ! i)\<lparr>msg_buf := bbuf h ! (bs ! i), msg_OOB := bbuf h ! (bs ! i)\<rparr>]\<rparr>\<rparr>)"

text \<open>
  The sending loop of \<open>flush\<close>, from index \<open>txIdx\<close>.  Nothing bounds the counts of an arbitrary
  \<open>WriteBatch\<close>, so the loop is partial.
\<close>

partial_function (option) flush_loop ::
    "write_batch \<Rightarrow> int \<Rightarrow> wstate \<Rightarrow> ((int \<times> err option) \<times> wstate) go option" where
  "flush_loop wb txIdx s =
     (let ms = w_messages (wr s); hi = unat (writePos (wr s)) in
      if int (length ms) \<le> txIdx then Some (Ret ((txIdx, None), s))
      else if txIdx < 0 \<or> int hi < txIdx \<or> length ms < hi then Some (Panic SliceOutOfRange)
      else
        let arg = drop (nat txIdx) (take hi ms); s = s\<lparr>w_batches := w_batches s @ [arg]\<rparr> in
        case wb arg (arrays (w_hp s)) of (n, e) \<Rightarrow>
          if n = 0 \<or> e \<noteq> None then Some (Ret ((0, e), s))
          else flush_loop wb (txIdx + n) s)"

text \<open>
  \<open>flush\<close>: the messages always fill their array of \<open>batchSize\<close> slots, so \<open>messages[:batchSize]\<close> is in range;
  when the loop returns early (its count is then 0) the buffers are not renewed.
\<close>

definition flush :: "platform \<Rightarrow> (nat list \<Rightarrow> nat option) \<Rightarrow> write_batch \<Rightarrow> int \<Rightarrow> wstate \<Rightarrow> ((int \<times> err option) \<times> wstate) go option" where
  "flush P pick wb now s =
     (let s = s\<lparr>wr := (wr s)\<lparr>w_messages := take (batchSize P) (w_messages (wr s)), lastWrite := Some now, writePos := 0\<rparr>\<rparr> in
      map_option (\<lambda>r. go_bind r (\<lambda>((tx, e), s).
        if tx = 0 then Ret ((tx, e), s)
        else Ret ((tx, e), fold (w_refill pick) [0..<unat (writePos (wr s))] s))) (flush_loop wb 0 s))"

text \<open>\<open>copy(dst, src)\<close> into a slice: the count and the arrays afterwards.\<close>

definition copy_into :: "slice \<Rightarrow> byte list \<Rightarrow> byte list list \<Rightarrow> nat \<times> byte list list" where
  "copy_into sc src arrs = (min (snd sc) (length src), write_slice sc src arrs)"

definition batchWriter_Write ::
    "platform \<Rightarrow> (nat list \<Rightarrow> nat option) \<Rightarrow> write_batch \<Rightarrow> int \<Rightarrow> byte list \<Rightarrow> byte list \<Rightarrow> net_addr option \<Rightarrow> wstate \<Rightarrow>
     ((nat \<times> nat \<times> err option) \<times> wstate) go option" where
  "batchWriter_Write P pick wb now b oob addr s =
     (if w_closed (wr s) then Some (Ret ((0, 0, Some EOF), s))
      else if length (w_messages (wr s)) \<le> unat (writePos (wr s)) then Some (Panic IndexOutOfRange)
      else
        let pos = unat (writePos (wr s)); msg = w_messages (wr s) ! pos in
        case copy_into (msg_buf msg) b (arrays (w_hp s)) of (dataN, arrs) \<Rightarrow>
        case copy_into (msg_OOB msg) oob arrs of (oobN, arrs) \<Rightarrow>
        let s = s\<lparr>w_hp := (w_hp s)\<lparr>arrays := arrs\<rparr>,
              wr := (wr s)\<lparr>w_messages := (w_messages (wr s))[pos := msg\<lparr>msg_buf := (fst (msg_buf msg), dataN)\<rparr>],
                writePos := writePos (wr s) + 1\<rparr>\<rparr> in
        if batchSize P < unat (writePos (wr s))
        then map_option (\<lambda>r. go_bind r (\<lambda>((tx, e), s).
               if e \<noteq> None then Ret ((0, 0, e), s) else Ret ((dataN, oobN, None), s))) (flush P pick wb now s)
        else Some (Ret ((dataN, oobN, None), s)))"

text \<open>
  One round of the flush worker, and the period of its ticker (\<open>time.NewTicker\<close> panics unless it is
  positive).
\<close>

definition ticker_period :: "int \<Rightarrow> int go" where
  "ticker_period interval =
     (let p = interval div 2 in if p \<le> 0 then Panic (PanicMsg ''non-positive interval for NewTicker'') else Ret p)"

definition flush_tick ::
    "platform \<Rightarrow> (nat list \<Rightarrow> nat option) \<Rightarrow> write_batch \<Rightarrow> int \<Rightarrow> int \<Rightarrow> wstate \<Rightarrow> wstate go option" where
  "flush_tick P pick wb interval now s =
     (if 0 < unat (writePos (wr s)) \<and> (case lastWrite (wr s) of None \<Rightarrow> True | Some t \<Rightarrow> interval \<le> now - t)
      then map_option (\<lambda>r. go_bind r (\<lambda>(_, s). Ret s)) (flush P pick wb now s)
      else Some (Ret s))"

definition w_release :: "nat \<Rightarrow> wstate \<Rightarrow> wstate" where
  "w_release i s =
     (case bb_Put (w_buffers (wr s) ! i) (w_bufferPool s) (w_hp s) of (bp, h) \<Rightarrow>
      case bb_Put (w_oobBuffers (wr s) ! i) (w_oobBufferPool s) h of (op, h) \<Rightarrow>
        s\<lparr>w_hp := h, w_bufferPool := bp, w_oobBufferPool := op\<rparr>)"

definition batchWriter_Close ::
    "platform \<Rightarrow> (nat list \<Rightarrow> nat option) \<Rightarrow> write_batch \<Rightarrow> int \<Rightarrow> err option \<Rightarrow> wstate \<Rightarrow> (err option \<times> wstate) go option" where
  "batchWriter_Close P pick wb now sysClose s =
     (let s = s\<lparr>wr := (wr s)\<lparr>w_closed := True\<rparr>\<rparr> in
      map_option (\<lambda>r. go_bind r (\<lambda>s.
        if w_buffersReleased (wr s) then Ret (sysClose, s)
        else (let s = fold w_release [0..<batchSize P] s in
              Ret (sysClose, s\<lparr>wr := (wr s)\<lparr>w_buffersReleased := True\<rparr>\<rparr>))))
        (if 0 < unat (writePos (wr s)) then map_option (\<lambda>r. go_bind r (\<lambda>(_, s). Ret s)) (flush P pick wb now s)
         else Some (Ret s)))"

section \<open>The basic writer\<close>

text \<open>
  The connection it writes to: the \<open>Write\<close> method, if it is a \<open>connectedConn\<close>, and \<open>WriteMsgUDP\<close>, whose
  address is a \<open>*net.UDPAddr\<close>.
\<close>

record oob_sock =
  os_Write :: "(byte list \<Rightarrow> int \<times> err option) option"
  os_WriteMsgUDP :: "byte list \<Rightarrow> byte list \<Rightarrow> net_addr \<Rightarrow> int \<times> int \<times> err option"

definition basicWriter_Write ::
    "oob_sock \<Rightarrow> bool \<Rightarrow> byte list \<Rightarrow> byte list \<Rightarrow> net_addr option \<Rightarrow> (int \<times> int \<times> err option) go" where
  "basicWriter_Write c isConnected b oob addr =
     (case (isConnected, os_Write c) of
        (True, Some write) \<Rightarrow> (case write b of (dataN, e) \<Rightarrow> Ret (dataN, 0, e))
      | _ \<Rightarrow>
          (case (if isConnected then None else addr) of
             Some a \<Rightarrow> (if addr_UDP a = None then Panic BadTypeAssertion else Ret (os_WriteMsgUDP c b oob a))
           | None \<Rightarrow> Panic BadTypeAssertion))"

section \<open>What a batch writer sends\<close>

text \<open>The states a writer reaches by calls of its methods and rounds of its worker.\<close>

inductive wreach ::
    "platform \<Rightarrow> (nat list \<Rightarrow> nat option) \<Rightarrow> write_batch \<Rightarrow> int \<Rightarrow> wstate \<Rightarrow> wstate \<Rightarrow> bool"
  for P pick wb interval s0 where
  w_start: "wreach P pick wb interval s0 s0"
| w_write: "wreach P pick wb interval s0 s \<Longrightarrow> batchWriter_Write P pick wb now b oob addr s = Some (Ret (r, s')) \<Longrightarrow>
     wreach P pick wb interval s0 s'"
| w_tick: "wreach P pick wb interval s0 s \<Longrightarrow> flush_tick P pick wb interval now s = Some (Ret s') \<Longrightarrow>
     wreach P pick wb interval s0 s'"
| w_close: "wreach P pick wb interval s0 s \<Longrightarrow> batchWriter_Close P pick wb now sysClose s = Some (Ret (r, s')) \<Longrightarrow>
     wreach P pick wb interval s0 s'"

definition writer_inv :: "platform \<Rightarrow> wstate \<Rightarrow> bool" where
  "writer_inv P s \<longleftrightarrow> length (w_messages (wr s)) = batchSize P \<and> unat (writePos (wr s)) \<le> batchSize P
     \<and> set (w_batches s) \<subseteq> {[]}"

lemma length_new_slots: "length (fst (new_slots pick n st)) = n"
  by (induction n arbitrary: st) (auto split: prod.splits simp: case_prod_beta)

lemma newBatchWriter_inv:
  assumes "platform_ok P"
  shows "writer_inv P (newBatchWriter P pick conn bp op h)"
    and "unat (writePos (wr (newBatchWriter P pick conn bp op h))) = batchSize P"
    and "\<not> w_closed (wr (newBatchWriter P pick conn bp op h))"
  using assms length_new_slots [of pick "batchSize P" "(bp, op, h)"]
  by (auto simp: newBatchWriter_def writer_inv_def platform_ok_def unat_of_nat split: prod.splits)

text \<open>
  The write position is reset before the loop runs, so the loop offers the socket an empty batch and,
  whatever count the socket returns, ends or panics at its next round.
\<close>

lemma flush_loop_empty:
  assumes pos: "writePos (wr s) = 0" and len: "0 < length (w_messages (wr s))"
    and ret: "flush_loop wb 0 s = Some (Ret (r, s'))"
  shows "s' = s\<lparr>w_batches := w_batches s @ [[]]\<rparr>"
proof -
  let ?s = "s\<lparr>w_batches := w_batches s @ [[]]\<rparr>"
  obtain n e where wb: "wb [] (arrays (w_hp s)) = (n, e)" by fastforce
  have one: "flush_loop wb 0 s = (if n = 0 \<or> e \<noteq> None then Some (Ret ((0, e), ?s)) else flush_loop wb n ?s)"
    by (subst flush_loop.simps) (use pos len wb in \<open>auto simp: Let_def\<close>)
  have two: "flush_loop wb n ?s = (if int (length (w_messages (wr s))) \<le> n then Some (Ret ((n, None), ?s))
      else Some (Panic SliceOutOfRange))" if "n \<noteq> 0"
    by (subst flush_loop.simps) (use pos that in \<open>auto simp: Let_def\<close>)
  show ?thesis
    using ret one two by (auto split: if_splits)
qed

lemma flush_frame:
  assumes len: "0 < length (w_messages (wr s))" "length (w_messages (wr s)) = batchSize P" and ret: "flush P pick wb now s = Some (Ret (r, s'))"
  shows "s' = s\<lparr>wr := (wr s)\<lparr>lastWrite := Some now, writePos := 0\<rparr>, w_batches := w_batches s @ [[]]\<rparr>"
proof -
  let ?s = "s\<lparr>wr := (wr s)\<lparr>lastWrite := Some now, writePos := 0\<rparr>\<rparr>"
  obtain tx e t where l: "flush_loop wb 0 ?s = Some (Ret ((tx, e), t))"
    and s': "s' = (if tx = 0 then t else fold (w_refill pick) [0..<unat (writePos (wr t))] t)"
    using ret len(2) by (auto simp: flush_def Let_def go_bind_Ret_iff split: if_splits)
  have t: "t = ?s\<lparr>w_batches := w_batches s @ [[]]\<rparr>"
    using flush_loop_empty [of ?s wb "(tx, e)" t] l len by simp
  then have "s' = t"
    by (simp add: s')
  then show ?thesis by (simp add: t)
qed

lemma writer_inv_flush:
  assumes "platform_ok P" and "length (w_messages (wr s)) = batchSize P" and "set (w_batches s) \<subseteq> {[]}"
    and "flush P pick wb now s = Some (Ret (r, s'))"
  shows "writer_inv P s'"
  using flush_frame [OF _ _ assms(4)] assms(1-3) by (simp add: writer_inv_def platform_ok_def)

lemma flush_state:
  "map_option (\<lambda>r. go_bind r (\<lambda>(_, s). Ret s)) (flush P pick wb now s) = Some (Ret t) \<Longrightarrow>
   \<exists>r. flush P pick wb now s = Some (Ret (r, t))"
  by (auto simp: go_bind_Ret_iff)

lemma w_release_frame: "wr (fold w_release is s) = wr s \<and> w_batches (fold w_release is s) = w_batches s"
  by (induction "is" arbitrary: s) (auto simp: w_release_def bb_Put_def split: prod.splits)

lemma writer_inv_write:
  assumes P: "platform_ok P" and inv: "writer_inv P s"
    and ret: "batchWriter_Write P pick wb now b oob addr s = Some (Ret (r, s'))"
  shows "writer_inv P s'"
proof (cases "w_closed (wr s)")
  case True
  then show ?thesis using inv ret by (simp add: batchWriter_Write_def)
next
  case False
  have pos: "unat (writePos (wr s)) < batchSize P"
    using ret False inv by (auto simp: batchWriter_Write_def writer_inv_def split: if_splits)
  then have "unat (writePos (wr s) + 1) = Suc (unat (writePos (wr s)))"
    by (rule unat_Suc_pos [OF P]) simp
  then show ?thesis
    using ret False inv pos
    by (auto simp: batchWriter_Write_def Let_def copy_into_def writer_inv_def split: if_splits)
qed

text \<open>A flush that is conditional, as the worker and \<open>Close\<close> make it.\<close>

lemma writer_inv_maybe_flush:
  assumes P: "platform_ok P" and inv: "writer_inv P s"
    and ret: "(if cond then map_option (\<lambda>r. go_bind r (\<lambda>(_, s). Ret s)) (flush P pick wb now s) else Some (Ret s)) = Some (Ret t)"
  shows "writer_inv P t"
proof (cases cond)
  case True
  then obtain r where "flush P pick wb now s = Some (Ret (r, t))"
    using ret flush_state [of P pick wb now s t] by auto
  then show ?thesis using inv by (intro writer_inv_flush [OF P]) (simp_all add: writer_inv_def)
qed (use inv ret in simp)

lemma writer_inv_close:
  assumes P: "platform_ok P" and inv: "writer_inv P s" and ret: "batchWriter_Close P pick wb now sysClose s = Some (Ret (r, s'))"
  shows "writer_inv P s'"
proof -
  let ?s = "s\<lparr>wr := (wr s)\<lparr>w_closed := True\<rparr>\<rparr>"
  let ?F = "if 0 < unat (writePos (wr ?s)) then map_option (\<lambda>r. go_bind r (\<lambda>(_, s). Ret s)) (flush P pick wb now ?s)
       else Some (Ret ?s)"
  let ?G = "\<lambda>s. if w_buffersReleased (wr s) then Ret (sysClose, s)
        else (let s = fold w_release [0..<batchSize P] s in Ret (sysClose, s\<lparr>wr := (wr s)\<lparr>w_buffersReleased := True\<rparr>\<rparr>))"
  have "map_option (\<lambda>r. go_bind r ?G) ?F = Some (Ret (r, s'))"
    using ret by (simp only: batchWriter_Close_def Let_def)
  then obtain t where t: "?F = Some (Ret t)" and G: "?G t = Ret (r, s')"
    unfolding map_option_eq_Some go_bind_Ret_iff by blast
  have "writer_inv P ?s"
    using inv by (simp add: writer_inv_def)
  from writer_inv_maybe_flush [OF P this t] have "writer_inv P t" .
  moreover have "s' = t \<or> s' = (fold w_release [0..<batchSize P] t)\<lparr>wr := (wr t)\<lparr>w_buffersReleased := True\<rparr>\<rparr>"
    using G w_release_frame [of "[0..<batchSize P]" t] by (auto simp: Let_def split: if_splits)
  ultimately show ?thesis
    using w_release_frame [of "[0..<batchSize P]" t] by (auto simp: writer_inv_def)
qed

lemma wreach_inv:
  assumes P: "platform_ok P" and r: "wreach P pick wb interval s0 s" and "writer_inv P s0"
  shows "writer_inv P s"
  using r assms(3)
proof (induction rule: wreach.induct)
  case (w_tick s now s')
  then show ?case
    using writer_inv_maybe_flush [OF P, of s] unfolding flush_tick_def by blast
qed (blast intro: writer_inv_write [OF P] writer_inv_close [OF P])+

lemma flush_nothing:
  assumes "wb [] (arrays (w_hp s)) = (0, None)" and "0 < length (w_messages (wr s))" and "length (w_messages (wr s)) = batchSize P"
  shows "flush P pick wb now s =
    Some (Ret ((0, None), s\<lparr>wr := (wr s)\<lparr>lastWrite := Some now, writePos := 0\<rparr>, w_batches := w_batches s @ [[]]\<rparr>))"
  unfolding flush_def by (subst flush_loop.simps) (use assms in \<open>auto simp: Let_def\<close>)

section \<open>Properties\<close>



text \<open>
  C37: A batch writer never hands a packet to the socket: in every state that writes, rounds of the flush
  worker and \<open>Close\<close> can reach, each call of \<open>WriteBatch\<close> was given an empty batch, because \<open>flush\<close>
  resets the write position before it slices the queue with it.
\<close>

theorem batch_writer_never_sends:
  assumes "platform_ok P" and "wreach P pick wb interval (newBatchWriter P pick conn bp op h) s"
  shows "set (w_batches s) \<subseteq> {[]} \<and> unat (writePos (wr s)) \<le> batchSize P"
  using wreach_inv [OF assms newBatchWriter_inv(1) [OF assms(1)]] by (simp add: writer_inv_def)

theorem batch_writer_never_sends_witness:
  "\<exists>s r t u. flush_tick linux first_fit (\<lambda>ms arrs. (int (length ms), None)) 10 0
        (newBatchWriter linux first_fit False [] [] \<lparr>arrays = [], bbuf = []\<rparr>) = Some (Ret s)
    \<and> batchWriter_Write linux first_fit (\<lambda>ms arrs. (int (length ms), None)) 1 [1, 2] [] None s = Some (Ret (r, t))
    \<and> unat (writePos (wr t)) = 1
    \<and> flush_tick linux first_fit (\<lambda>ms arrs. (int (length ms), None)) 10 20 t = Some (Ret u)
    \<and> length (w_batches u) = 2 \<and> set (w_batches u) \<subseteq> {[]}"
proof -
  let ?wb = "\<lambda>(ms :: message list) (arrs :: byte list list). (int (length ms), None :: err option)"
  let ?n = "newBatchWriter linux first_fit False [] [] \<lparr>arrays = [], bbuf = []\<rparr>"
  note new = newBatchWriter_inv [OF platforms_ok(1), of first_fit False "[]" "[]" "\<lparr>arrays = [], bbuf = []\<rparr>"]
  have len: "length (w_messages (wr ?n)) = 8" and pos: "unat (writePos (wr ?n)) = 8" and lw: "lastWrite (wr ?n) = None"
    "w_batches ?n = []"
    using new by (auto simp: writer_inv_def linux_def newBatchWriter_def split: prod.splits)
  have b: "batchSize linux = 8"
    by (simp add: linux_def)
  define s where "s = ?n\<lparr>wr := (wr ?n)\<lparr>lastWrite := Some 0, writePos := 0\<rparr>, w_batches := [[]]\<rparr>"
  have s: "flush_tick linux first_fit ?wb 10 0 ?n = Some (Ret s)"
    using flush_nothing [of ?wb ?n linux first_fit 0] len pos lw b by (simp add: flush_tick_def s_def)
  have sl: "length (w_messages (wr s)) = 8" "\<not> w_closed (wr s)" "w_batches s = [[]]" "writePos (wr s) = 0" "lastWrite (wr s) = Some 0"
    using len new(3) by (simp_all add: s_def)
  obtain r t where t: "batchWriter_Write linux first_fit ?wb 1 [1, 2] [] None s = Some (Ret (r, t))"
    "writePos (wr t) = 1" "length (w_messages (wr t)) = 8" "w_batches t = [[]]" "lastWrite (wr t) = Some 0"
    using sl by (simp add: batchWriter_Write_def Let_def copy_into_def linux_def)
  obtain u where u: "flush_tick linux first_fit ?wb 10 20 t = Some (Ret u)" "w_batches u = [[], []]"
    using flush_nothing [of ?wb t linux first_fit 20] t b by (simp add: flush_tick_def)
  have "wreach linux first_fit ?wb 10 ?n u"
    using w_tick [OF w_write [OF w_tick [OF w_start s] t(1)] u(1)] .
  from batch_writer_never_sends [OF platforms_ok(1) this] show ?thesis
    using s t u by (intro exI [of _ s] exI [of _ r] exI [of _ t] exI [of _ u]) simp
qed

end
