(* ===== verification/Raw_Conn.thy ===== *)
theory Raw_Conn
  imports Cmsg Oob_Writer Demux
begin

text \<open>
  The two implementations of \<open>RawConn\<close>: \<open>BasicConn\<close> of \<open>sys_conn_basic.go\<close> and \<open>oobConn\<close> of
  \<open>sys_conn_oob.go\<close>.  The locale \<open>raw_conn\<close> is the contract that the read loop of the super connection
  relies on; both implementations satisfy it.
\<close>

section \<open>BasicConn\<close>

text \<open>
  The \<open>net.PacketConn\<close> it wraps: its \<open>ReadFrom\<close> and \<open>WriteTo\<close>; \<open>Read\<close> and \<open>Write\<close> if it is a
  \<open>connectedConn\<close>; \<open>RemoteAddr\<close> if it is a \<open>remoteAddrSock\<close>.  A read returns its results and the new
  content of the slice.
\<close>

record packet_conn =
  pc_ReadFrom :: "byte list \<Rightarrow> (int \<times> net_addr option \<times> err option) \<times> byte list"
  pc_WriteTo :: "byte list \<Rightarrow> net_addr option \<Rightarrow> int \<times> err option"
  pc_connected :: "((byte list \<Rightarrow> (int \<times> err option) \<times> byte list) \<times> (byte list \<Rightarrow> int \<times> err option)) option"
  pc_RemoteAddr :: "net_addr option option"

record BasicConn =
  bc_PacketConn :: packet_conn
  bc_isConnected :: bool
  bc_supportsDF :: bool

definition BasicConn_RemoteAddr :: "BasicConn \<Rightarrow> net_addr option" where
  "BasicConn_RemoteAddr c = (case pc_RemoteAddr (bc_PacketConn c) of Some ra \<Rightarrow> ra | None \<Rightarrow> None)"

definition BasicConn_ReadPacket :: "BasicConn \<Rightarrow> byte list \<Rightarrow> byte list \<Rightarrow> raw_read" where
  "BasicConn_ReadPacket c b oob =
     (case (case (bc_isConnected c, pc_connected (bc_PacketConn c)) of
              (True, Some (read, _)) \<Rightarrow> (case read b of ((n, e), b) \<Rightarrow> (n, None, e, b))
            | _ \<Rightarrow> (case pc_ReadFrom (bc_PacketConn c) b of ((n, a, e), b) \<Rightarrow> (n, a, e, b))) of
        (n, a, None, b) \<Rightarrow>
          \<lparr>rr_n = n, rr_oobN = 0, rr_ecn = ECNUnsupported, rr_addr = a, rr_err = None, rr_b = b, rr_oob = oob\<rparr>
      | (n, a, Some e, b) \<Rightarrow>
          \<lparr>rr_n = 0, rr_oobN = 0, rr_ecn = ECNUnsupported, rr_addr = None, rr_err = Some e, rr_b = b, rr_oob = oob\<rparr>)"

definition BasicConn_WritePacket :: "log_state \<Rightarrow> BasicConn \<Rightarrow> write_packet" where
  "BasicConn_WritePacket lg c b oob gsoSize ecn addr =
     (if gsoSize \<noteq> 0 then
        go_bind (Log lg PanicLevel ''cannot use GSO with a basicConn'') (\<lambda>_.
          Ret (0, 0, Some (ErrMsg ''GSO not supported'')))
      else if ecn \<noteq> ECNUnsupported then
        go_bind (Log lg PanicLevel ''cannot use ECN with a basicConn'') (\<lambda>_.
          Ret (0, 0, Some (ErrMsg ''ECN not supported'')))
      else
        case (bc_isConnected c, pc_connected (bc_PacketConn c)) of
          (True, Some (_, write)) \<Rightarrow> (case write b of (n, e) \<Rightarrow> Ret (n, 0, e))
        | _ \<Rightarrow> (case pc_WriteTo (bc_PacketConn c) b (if bc_isConnected c then None else addr) of (n, e) \<Rightarrow> Ret (n, 0, e)))"

definition BasicConn_Capabilities :: "BasicConn \<Rightarrow> ConnCapabilities" where
  "BasicConn_Capabilities c = NewConnCapabilities (bc_supportsDF c) False False"

section \<open>oobConn\<close>

text \<open>
  \<open>ReadPacket\<close> on the state of the batch reader.  On a read error the results of the reader are
  returned as they are; on a parse error they are reset.
\<close>

definition oobConn_ReadPacket ::
    "platform \<Rightarrow> cmsg_api \<Rightarrow> (nat list \<Rightarrow> nat option) \<Rightarrow> read_batch \<Rightarrow> byte list \<Rightarrow> byte list \<Rightarrow> rstate \<Rightarrow>
     (raw_read \<times> rstate) go option" where
  "oobConn_ReadPacket P A pick rb b oob s =
     (case batchReader_Read P pick rb b oob s of
        Panic p \<Rightarrow> Some (Panic p)
      | Exit k \<Rightarrow> Some (Exit k)
      | Ret (((n, k, a, e), b, oob), s) \<Rightarrow>
          let r = \<lparr>rr_n = int n, rr_oobN = int k, rr_ecn = ECNUnsupported, rr_addr = a, rr_err = e, rr_b = b, rr_oob = oob\<rparr> in
          if e \<noteq> None then Some (Ret (r, s))
          else
            (case slice_to oob (int k) of
               Panic p \<Rightarrow> Some (Panic p)
             | Exit j \<Rightarrow> Some (Exit j)
             | Ret oobData \<Rightarrow>
                 map_option (\<lambda>res. go_bind res (\<lambda>ee. case ee of
                     Inl e \<Rightarrow> Ret (r\<lparr>rr_n := 0, rr_oobN := 0, rr_ecn := ECNNon, rr_addr := None, rr_err := Some e\<rparr>, s)
                   | Inr ecn \<Rightarrow> Ret (r\<lparr>rr_ecn := ecn\<rparr>, s)))
                   (parse_cmsgs P A oobData ECNUnsupported)))"

text \<open>
  \<open>WritePacket\<close>, on the capabilities of the connection and the \<open>Write\<close> of its writer.
\<close>

type_synonym oob_write = "byte list \<Rightarrow> byte list \<Rightarrow> net_addr option \<Rightarrow> (int \<times> int \<times> err option) go"

definition write_gso ::
    "platform \<Rightarrow> cmsg_api \<Rightarrow> log_state \<Rightarrow> ConnCapabilities \<Rightarrow> 16 word \<Rightarrow> byte list \<Rightarrow> (err + byte list) go" where
  "write_gso P A lg cap gsoSize oob =
     (if gsoSize = 0 then Ret (Inr oob)
      else if \<not> cap_GSO cap then go_bind (Log lg PanicLevel ''GSO disabled'') (\<lambda>_. Ret (Inl (ErrMsg ''GSO disabled'')))
      else go_bind (AppendUDPSegmentSizeMsg P A oob gsoSize) (\<lambda>oob. Ret (Inr oob)))"

definition write_ecn ::
    "platform \<Rightarrow> cmsg_api \<Rightarrow> log_state \<Rightarrow> ConnCapabilities \<Rightarrow> ECN \<Rightarrow> net_addr option \<Rightarrow> byte list \<Rightarrow> (err + byte list) go" where
  "write_ecn P A lg cap ecn addr oob =
     (if ecn = ECNUnsupported then Ret (Inr oob)
      else if \<not> cap_ECN cap then
        go_bind (Log lg PanicLevel ''tried to send an ECN-marked packet although ECN is disabled'') (\<lambda>_.
          Ret (Inl (ErrMsg ''ECN is disabled'')))
      else
        case Option.bind addr addr_UDP of
          None \<Rightarrow> Ret (Inr oob)
        | Some ip \<Rightarrow>
            go_bind (if To4 ip \<noteq> None then appendIPv4ECNMsg P A oob ecn else appendIPv6ECNMsg P A oob ecn) (\<lambda>oob.
              Ret (Inr oob)))"

definition oobConn_WritePacket ::
    "platform \<Rightarrow> cmsg_api \<Rightarrow> log_state \<Rightarrow> ConnCapabilities \<Rightarrow> oob_write \<Rightarrow> write_packet" where
  "oobConn_WritePacket P A lg cap write b packetInfoOOB gsoSize ecn addr =
     go_bind (write_gso P A lg cap gsoSize packetInfoOOB) (\<lambda>r. case r of
       Inl e \<Rightarrow> Ret (0, 0, Some e)
     | Inr oob \<Rightarrow> go_bind (write_ecn P A lg cap ecn addr oob) (\<lambda>r. case r of
         Inl e \<Rightarrow> Ret (0, 0, Some e)
       | Inr oob \<Rightarrow> go_bind (write b oob addr) (\<lambda>(n, oobN, e).
           if e \<noteq> None then Ret (0, 0, e) else Ret (n, oobN, e))))"

text \<open>
  \<open>Close\<close> closes the underlying connection, then the reader and the writer, whose errors it ignores.
\<close>

definition oobConn_Close ::
    "platform \<Rightarrow> err option \<Rightarrow> (rstate \<Rightarrow> err option \<times> rstate) \<Rightarrow> ('w \<Rightarrow> (err option \<times> 'w) go option) \<Rightarrow> rstate \<Rightarrow> 'w \<Rightarrow>
     (err option \<times> rstate \<times> 'w) go option" where
  "oobConn_Close P sockErr readerClose writerClose s w =
     (case readerClose s of (_, s) \<Rightarrow>
        map_option (\<lambda>r. go_bind r (\<lambda>(_, w). Ret (sockErr, s, w))) (writerClose w))"

definition oobConn_RemoteAddr :: "net_addr option option \<Rightarrow> net_addr option" where
  "oobConn_RemoteAddr ra = (case ra of Some a \<Rightarrow> a | None \<Rightarrow> None)"

definition oobConn_Capabilities :: "ConnCapabilities \<Rightarrow> ConnCapabilities" where
  "oobConn_Capabilities cap = cap"

section \<open>The contract of a raw connection\<close>

text \<open>
  A raw connection, as the read loop sees one call of \<open>ReadPacket\<close>: it leaves the sizes of the two
  slices alone and, when it returns no error, counts within them.
\<close>

locale raw_conn =
  fixes readPacket :: "byte list \<Rightarrow> byte list \<Rightarrow> raw_read"
  assumes sizes: "length (rr_b (readPacket b oob)) = length b \<and> length (rr_oob (readPacket b oob)) = length oob"
    and within: "rr_err (readPacket b oob) = None \<Longrightarrow>
      0 \<le> rr_n (readPacket b oob) \<and> rr_n (readPacket b oob) \<le> int (length b)
      \<and> 0 \<le> rr_oobN (readPacket b oob) \<and> rr_oobN (readPacket b oob) \<le> int (length oob)"

text \<open>The read loop over such a connection, with libraries that keep their contracts.\<close>

locale read_loop = udp_lib L ct cp cl it + raw_conn readPacket
  for L :: "('q, 'd) lib" and ct :: "'q \<Rightarrow> receivedPacket list" and cp :: "'q \<Rightarrow> nat"
    and cl :: "'q \<Rightarrow> bool" and it :: "int \<Rightarrow> 'q \<Rightarrow> bool" and readPacket :: "byte list \<Rightarrow> byte list \<Rightarrow> raw_read"
begin

lemma getSubConn_returns: "\<exists>r l'. getSubConn L a b f l = Ret (r, l')"
  using newSubConn_ok [of l a]
  by (auto simp: getSubConn_def Let_def split: option.splits if_splits)

lemma dispatchMsg_returns: "\<exists>l'. dispatchMsg L a b ob e l = Ret l'"
  using getSubConn_returns [of a "bufs l ! b" True l] by (auto simp: dispatchMsg_def split: option.splits)

text \<open>
  A loop iteration never slices out of range and, while the loop runs, never panics.
\<close>

lemma iteration_returns:
  assumes buf: "buf_inv ct l hand" and run: "\<not> readDoneCh l" "1 \<le> readWG l"
  shows "\<exists>go_on l'. readLoop_iter L readPacket l = Ret (go_on, l')"
proof -
  obtain b ob l1 where get: "readLoop_buffers L l = (b, ob, l1)"
    by (metis prod_cases3)
  note ok = readLoop_buffers_ok [OF get buf]
  have ne: "ob \<noteq> b" and lens: "b < length (bufs l1)" "ob < length (bufs l1)"
    using hand_distinct [OF ok(1)] hand_bound [OF ok(1)] by auto
  have same: "readDoneCh l1 = readDoneCh l" "readWG l1 = readWG l"
    using ok(4) by auto
  define r where "r = readPacket (bufs l1 ! b) (bufs l1 ! ob)"
  let ?l = "l1\<lparr>bufs := (bufs l1)[b := rr_b r, ob := rr_oob r]\<rparr>"
  have cont: "bufs ?l ! b = rr_b r" "bufs ?l ! ob = rr_oob r"
    using ne lens by simp_all
  have iter: "readLoop_iter L readPacket l = readLoop_deliver L r b ob l1"
    by (simp add: readLoop_iter_def get r_def)
  show ?thesis
  proof (cases "rr_err r")
    case (Some e)
    then show ?thesis
      unfolding iter using run by (auto simp: readLoop_deliver_def Let_def same chan_close_def wg_add_def)
  next
    case None
    have "slice_to (rr_b r) (rr_n r) = Ret (take (nat (rr_n r)) (rr_b r))"
      "slice_to (rr_oob r) (rr_oobN r) = Ret (take (nat (rr_oobN r)) (rr_oob r))"
      using within [of "bufs l1 ! b" "bufs l1 ! ob"] sizes [of "bufs l1 ! b" "bufs l1 ! ob"] None
      by (simp_all add: r_def slice_to_def)
    then show ?thesis
      unfolding iter using dispatchMsg_returns None cont
      by (auto simp: readLoop_deliver_def Let_def go_bind_Ret_iff)
  qed
qed

end

section \<open>Both implementations keep the contract\<close>

text \<open>What \<open>io.Reader\<close> and \<open>net.PacketConn\<close> document of a read.\<close>

definition packet_conn_ok :: "packet_conn \<Rightarrow> bool" where
  "packet_conn_ok pc \<longleftrightarrow>
     (\<forall>b n a e b'. pc_ReadFrom pc b = ((n, a, e), b') \<longrightarrow> length b' = length b \<and> 0 \<le> n \<and> n \<le> int (length b))
     \<and> (\<forall>read write b n e b'. pc_connected pc = Some (read, write) \<longrightarrow> read b = ((n, e), b') \<longrightarrow>
          length b' = length b \<and> 0 \<le> n \<and> n \<le> int (length b))"

lemma packet_conn_ReadFrom:
  "packet_conn_ok pc \<Longrightarrow> pc_ReadFrom pc b = ((n, a, e), b') \<Longrightarrow> length b' = length b \<and> 0 \<le> n \<and> n \<le> int (length b)"
  unfolding packet_conn_ok_def by blast

lemma packet_conn_Read:
  "packet_conn_ok pc \<Longrightarrow> pc_connected pc = Some (read, write) \<Longrightarrow> read b = ((n, e), b') \<Longrightarrow>
     length b' = length b \<and> 0 \<le> n \<and> n \<le> int (length b)"
  unfolding packet_conn_ok_def by blast

lemma basic_raw_conn:
  assumes "packet_conn_ok (bc_PacketConn c)"
  shows "raw_conn (BasicConn_ReadPacket c)"
proof
  fix b oob
  obtain n a e b' where r: "(case (bc_isConnected c, pc_connected (bc_PacketConn c)) of
              (True, Some (read, _)) \<Rightarrow> (case read b of ((n, e), b) \<Rightarrow> (n, None, e, b))
            | _ \<Rightarrow> (case pc_ReadFrom (bc_PacketConn c) b of ((n, a, e), b) \<Rightarrow> (n, a, e, b))) = (n, a, e, b')"
    by (metis prod_cases4)
  have ok: "length b' = length b \<and> 0 \<le> n \<and> n \<le> int (length b)"
  proof (cases "bc_isConnected c \<and> pc_connected (bc_PacketConn c) \<noteq> None")
    case True
    then obtain read wrt where rw: "pc_connected (bc_PacketConn c) = Some (read, wrt)" by auto
    then have "read b = ((n, e), b')"
      using r True by (cases "read b") auto
    from packet_conn_Read [OF assms rw this] show ?thesis .
  next
    case False
    then have "pc_ReadFrom (bc_PacketConn c) b = ((n, a, e), b')"
      using r by (cases "pc_ReadFrom (bc_PacketConn c) b") (auto split: bool.splits option.splits prod.splits)
    from packet_conn_ReadFrom [OF assms this] show ?thesis .
  qed
  show "length (rr_b (BasicConn_ReadPacket c b oob)) = length b \<and> length (rr_oob (BasicConn_ReadPacket c b oob)) = length oob"
    using ok unfolding BasicConn_ReadPacket_def r by (cases e) simp_all
  show "0 \<le> rr_n (BasicConn_ReadPacket c b oob) \<and> rr_n (BasicConn_ReadPacket c b oob) \<le> int (length b)
      \<and> 0 \<le> rr_oobN (BasicConn_ReadPacket c b oob) \<and> rr_oobN (BasicConn_ReadPacket c b oob) \<le> int (length oob)"
    using ok unfolding BasicConn_ReadPacket_def r by (cases e) simp_all
qed

text \<open>
  What \<open>oobConn.ReadPacket\<close> returns, for a connection in the state \<open>s\<close>; a call that does not return
  delivers nothing to its caller and is shown as an error.
\<close>

definition oob_read ::
    "platform \<Rightarrow> cmsg_api \<Rightarrow> (nat list \<Rightarrow> nat option) \<Rightarrow> read_batch \<Rightarrow> rstate \<Rightarrow> byte list \<Rightarrow> byte list \<Rightarrow> raw_read" where
  "oob_read P A pick rb s b oob =
     (case oobConn_ReadPacket P A pick rb b oob s of
        Some (Ret (r, _)) \<Rightarrow> r
      | _ \<Rightarrow> \<lparr>rr_n = 0, rr_oobN = 0, rr_ecn = ECNUnsupported, rr_addr = None, rr_err = Some (ErrMsg ''no return''),
              rr_b = b, rr_oob = oob\<rparr>)"

lemma oob_raw_conn:
  assumes "batch_socket rb" and "platform_ok P" and "reader_inv P s"
  shows "raw_conn (oob_read P A pick rb s)"
proof
  fix b oob
  obtain n k a e b' oob' s' where rd: "batchReader_Read P pick rb b oob s = Ret (((n, k, a, e), b', oob'), s')"
    and ok: "n \<le> length b" "k \<le> length oob" "length b' = length b" "length oob' = length oob"
    using batch_socket.Read_inv [OF assms, of pick b oob] by auto
  let ?r = "oob_read P A pick rb s b oob"
  have "length (rr_b ?r) = length b \<and> length (rr_oob ?r) = length oob
      \<and> (rr_err ?r = None \<longrightarrow> 0 \<le> rr_n ?r \<and> rr_n ?r \<le> int (length b) \<and> 0 \<le> rr_oobN ?r \<and> rr_oobN ?r \<le> int (length oob))"
  proof (cases e)
    case (Some x)
    then show ?thesis using ok by (simp add: oob_read_def oobConn_ReadPacket_def rd)
  next
    case None
    have sl: "slice_to oob' (int k) = Ret (take k oob')"
      using ok by simp
    show ?thesis
    proof (cases "parse_cmsgs P A (take k oob') ECNUnsupported")
      case None
      then show ?thesis using ok \<open>e = None\<close> by (simp add: oob_read_def oobConn_ReadPacket_def rd sl)
    next
      case (Some res)
      then show ?thesis using ok \<open>e = None\<close>
        by (cases res) (auto simp: oob_read_def oobConn_ReadPacket_def rd sl Let_def split: sum.splits)
    qed
  qed
  then show "length (rr_b ?r) = length b \<and> length (rr_oob ?r) = length oob"
    "rr_err ?r = None \<Longrightarrow> 0 \<le> rr_n ?r \<and> rr_n ?r \<le> int (length b) \<and> 0 \<le> rr_oobN ?r \<and> rr_oobN ?r \<le> int (length oob)"
    by blast+
qed

text \<open>A packet connection that holds one datagram.\<close>

definition mem_conn :: "byte list \<Rightarrow> net_addr \<Rightarrow> packet_conn" where
  "mem_conn d a = \<lparr>pc_ReadFrom = (\<lambda>b. case go_copy b d of (n, b) \<Rightarrow> ((int n, Some a, None), b)),
     pc_WriteTo = (\<lambda>b a. (int (length b), None)), pc_connected = None, pc_RemoteAddr = None\<rparr>"

definition mem_basic :: "byte list \<Rightarrow> net_addr \<Rightarrow> BasicConn" where
  "mem_basic d a = \<lparr>bc_PacketConn = mem_conn d a, bc_isConnected = False, bc_supportsDF = True\<rparr>"

lemma mem_conn_ok: "packet_conn_ok (mem_conn d a)"
  by (auto simp: packet_conn_ok_def mem_conn_def go_copy_def Let_def)

interpretation mem: raw_conn "BasicConn_ReadPacket (mem_basic d a)" for d a
  by (rule basic_raw_conn) (simp add: mem_basic_def mem_conn_ok)

interpretation mem_loop: read_loop ref_lib bq_items bq_cap bq_closed bq_in_time "BasicConn_ReadPacket (mem_basic d a)" for d a
  by unfold_locales

section \<open>Sending\<close>

lemma go_bind_Log_panic: "quiet lg \<Longrightarrow> go_bind (Log lg PanicLevel m) f = Exit 1"
  by simp

context cmsg_linux
begin

text \<open>The control messages of an outgoing packet: those of the caller, the segment size, the ECN bits.\<close>

lemma write_gso_msgs:
  assumes "cap_GSO cap \<or> gso = 0"
  shows "\<exists>ms'. write_gso P A lg cap gso (encode_msgs A ms) = Ret (Inr (encode_msgs A (ms @ ms')))
    \<and> (\<forall>m \<in> set ms'. msg_ok m \<and> \<not> carries P m)"
proof (cases "gso = 0")
  case True
  then show ?thesis by (intro exI [of _ "[]"]) (simp add: write_gso_def)
next
  case False
  let ?m = "(IPPROTO_UDP P, UDP_SEGMENT P, uint16_bytes gso)"
  have "msg_ok ?m"
    by (rule gso.enc_ok [OF refl])
  moreover have "\<not> carries P ?m"
    using P by (simp add: carries_def platform_ok_def)
  ultimately show ?thesis
    using False assms gso.wr_law [of "encode_msgs A ms" gso]
    by (intro exI [of _ "[?m]"]) (simp add: write_gso_def encode_msgs_append encode_msgs_single)
qed

lemma write_ecn_msgs:
  assumes "cap_ECN cap" and "ecn \<noteq> ECNUnsupported" and bits: "ToHeaderBits ecn = Ret x"
    and addr: "addr = Some a" "addr_UDP a = Some ip" and tos: "msgTypeIPTOS P = IP_TOS P"
  shows "\<exists>m. write_ecn P A lg cap ecn addr (encode_msgs A ms) = Ret (Inr (encode_msgs A (ms @ [m])))
    \<and> msg_ok m \<and> carries P m \<and> snd (snd m) \<noteq> [] \<and> hd (snd (snd m)) = x"
proof -
  define n where "n = (if To4 ip \<noteq> None then ECNIPv4DataLen P else 4)"
  define lv where "lv = (if To4 ip \<noteq> None then IPPROTO_IP P else IPPROTO_IPV6 P)"
  define ty where "ty = (if To4 ip \<noteq> None then IP_TOS P else IPV6_TCLASS P)"
  let ?d = "x # replicate (n - 1) 0"
  have enc: "enc_bits k ecn = Ret (x # replicate (k - 1) 0)" for k
    by (simp add: enc_bits_def bits)
  have "write_ecn P A lg cap ecn addr (encode_msgs A ms) = Ret (Inr (encode_msgs A (ms @ [(lv, ty, ?d)])))"
    using assms(1,2) addr v4.wr_law [of "encode_msgs A ms" ecn] v6.wr_law [of "encode_msgs A ms" ecn]
    by (simp add: write_ecn_def enc encode_msgs_append encode_msgs_single lv_def ty_def n_def)
  moreover have "msg_ok (lv, ty, ?d)"
    using v4.enc_ok [OF enc] v6.enc_ok [OF enc] by (simp add: lv_def ty_def n_def)
  moreover have "carries P (lv, ty, ?d)"
    using tos by (simp add: carries_def lv_def ty_def)
  ultimately show ?thesis by (intro exI [of _ "(lv, ty, ?d)"]) simp
qed

end

context cmsg_linux
begin

lemma write_gso_returns: "cap_GSO cap \<Longrightarrow> \<exists>oob'. write_gso P A lg cap gso oob = Ret (Inr oob')"
  by (simp add: write_gso_def gso.wr_law)

lemma write_ecn_returns:
  "cap_ECN cap \<Longrightarrow> ToHeaderBits ecn = Ret x \<Longrightarrow> \<exists>oob'. write_ecn P A lg cap ecn addr oob = Ret (Inr oob')"
  by (auto simp: write_ecn_def v4.wr_law v6.wr_law enc_bits_def split: option.splits)

end

section \<open>Receiving\<close>

lemma Read_pending:
  assumes "pending s \<noteq> []" and "\<not> br_closed (rd s)"
  shows "batchReader_Read P pick rb b oob s = deliver b oob s"
  using assms by (auto simp: batchReader_Read_def pending_def)

lemma oob_ReadPacket_pending:
  assumes P: "platform_ok P" and A: "cmsg_layout A" and inv: "reader_inv P s" and cl: "\<not> br_closed (rd s)"
    and p: "pending s = (d, encode_msgs A ms, a) # ds"
    and ms: "\<forall>m \<in> set ms. msg_ok m \<and> (carries P m \<longrightarrow> snd (snd m) \<noteq> [])"
    and room: "length d \<le> length b" "length (encode_msgs A ms) \<le> length oob"
  shows "\<exists>r s'. oobConn_ReadPacket P A pick rb b oob s = Some (Ret (r, s'))
    \<and> rr_err r = None \<and> rr_addr r = a \<and> rr_ecn r = last_ecn P ms ECNUnsupported
    \<and> rr_n r = int (length d) \<and> take (length d) (rr_b r) = d
    \<and> rr_oobN r = int (length (encode_msgs A ms)) \<and> take (length (encode_msgs A ms)) (rr_oob r) = encode_msgs A ms
    \<and> reader_inv P s' \<and> pending s' = ds \<and> \<not> br_closed (rd s')"
proof -
  let ?e = "encode_msgs A ms"
  obtain s' where s': "deliver b oob s = Ret (((min (length b) (length d), min (length oob) (length ?e), a, None),
        snd (go_copy b d), snd (go_copy oob ?e)), s')" "reader_inv P s'" "pending s' = ds" "\<not> br_closed (rd s')"
    using deliver_next [OF P inv p, of b oob] cl by blast
  have cp: "take (length d) (snd (go_copy b d)) = d" "take (length ?e) (snd (go_copy oob ?e)) = ?e"
    using room go_copy_prefix [of b d] go_copy_prefix [of oob ?e] by (simp_all add: go_copy_all)
  have "slice_to (snd (go_copy oob ?e)) (int (length ?e)) = Ret ?e"
    using room cp(2) by simp
  then show ?thesis
    using s' p cl room cp Read_pending [of s P pick rb b oob] cmsg_layout.parse_encode [OF A P ms, of ECNUnsupported]
    by (simp add: oobConn_ReadPacket_def Let_def)
qed

section \<open>Properties\<close>



text \<open>
  C14: \<open>oobConn.ReadPacket\<close> hands out the next fetched datagram whole, with its sender, its control
  messages, and the ECN codepoint of the last control message that carries one.
\<close>

theorem oob_read_packet:
  assumes "platform_ok P" and "cmsg_layout A" and "reader_inv P s" and "\<not> br_closed (rd s)"
    and "pending s = (d, encode_msgs A ms, a) # ds"
    and "\<forall>m \<in> set ms. msg_ok m \<and> (carries P m \<longrightarrow> snd (snd m) \<noteq> [])"
    and "length d \<le> length b" and "length (encode_msgs A ms) \<le> length oob"
  shows "\<exists>r s'. oobConn_ReadPacket P A pick rb b oob s = Some (Ret (r, s'))
    \<and> rr_err r = None \<and> rr_addr r = a \<and> rr_ecn r = last_ecn P ms ECNUnsupported
    \<and> rr_n r = int (length d) \<and> take (length d) (rr_b r) = d
    \<and> rr_oobN r = int (length (encode_msgs A ms)) \<and> take (length (encode_msgs A ms)) (rr_oob r) = encode_msgs A ms
    \<and> pending s' = ds"
  using oob_ReadPacket_pending [OF assms, of pick rb] by blast

text \<open>A reader that fetched one datagram with a control message.\<close>

lemma fetched_reader:
  assumes "length d \<le> MaxPacketBufferSize" and "length ob \<le> oobBufferSize"
  shows "\<exists>s. reader_inv linux s \<and> \<not> br_closed (rd s) \<and> pending s = [(d, ob, a)]"
proof -
  let ?n = "newBatchReader linux first_fit [] [] \<lparr>arrays = [], bbuf = []\<rparr>"
  have "alloc_inv [] [] [] \<lparr>arrays = [], bbuf = []\<rparr>"
    by (simp add: alloc_inv_def)
  then have inv: "reader_inv linux ?n"
    by (rule ffit.newBatchReader_inv) simp
  have new: "\<not> br_closed (rd ?n)" "pending ?n = []"
    by (auto simp: newBatchReader_def pending_def linux_def split: prod.splits)
  have "yields linux (recv_batch [([], [], None), (d, ob, a)]) [([], [], None), (d, ob, a)]"
    using assms by (intro recv_batch_yields) (auto simp: linux_def)
  from held.Read_fetch [OF platforms_ok(1) inv new(2,1) this] show ?thesis by blast
qed

theorem oob_read_packet_witness:
  "\<exists>s r s'. oobConn_ReadPacket linux linux64 first_fit idle_socket (replicate 4 0) (replicate 128 0) s = Some (Ret (r, s'))
    \<and> rr_err r = None \<and> rr_ecn r = ECT0 \<and> rr_n r = 3 \<and> take 3 (rr_b r) = [1, 2, 3]"
proof -
  let ?ms = "[(0, 1, [2])] :: (int \<times> int \<times> byte list) list"
  have len: "length (encode_msgs linux64 ?ms) = 24"
    using lx64.length_cmsg_bytes [of 0 1 "[2]"] by (simp add: encode_msgs_def) (simp add: linux64_def align8_def)
  obtain s where s: "reader_inv linux s" "\<not> br_closed (rd s)" "pending s = [([1, 2, 3], encode_msgs linux64 ?ms, None)]"
    using fetched_reader [of "[1, 2, 3]" "encode_msgs linux64 ?ms" None] len
    by (auto simp: MaxPacketBufferSize_def oobBufferSize_def)
  have ms: "\<forall>m \<in> set ?ms. msg_ok m \<and> (carries linux m \<longrightarrow> snd (snd m) \<noteq> [])"
    by (simp add: msg_ok_def int32_def)
  have "last_ecn linux ?ms ECNUnsupported = ECT0"
    by (simp add: last_ecn_def carries_def linux_def ecn_of_bits_def)
  moreover have "length [1, 2, 3 :: byte] \<le> length (replicate 4 (0 :: byte))"
    "length (encode_msgs linux64 ?ms) \<le> length (replicate 128 (0 :: byte))"
    using len by simp_all
  then obtain r s' where "oobConn_ReadPacket linux linux64 first_fit idle_socket (replicate 4 0) (replicate 128 0) s = Some (Ret (r, s'))"
    "rr_err r = None" "rr_ecn r = last_ecn linux ?ms ECNUnsupported" "rr_n r = int (length [1, 2, 3 :: byte])"
    "take (length [1, 2, 3 :: byte]) (rr_b r) = [1, 2, 3]"
    using oob_read_packet [OF platforms_ok(1) lx64.cmsg_layout_axioms s ms, of "replicate 4 0" "replicate 128 0" first_fit idle_socket]
    by blast
  ultimately show ?thesis
    by (intro exI [of _ s] exI [of _ r] exI [of _ s']) (simp add: numeral_3_eq_3)
qed





text \<open>
  C38: On a connected socket the basic writer drops the control messages: whatever ECN codepoint, segment
  size and control messages \<open>WritePacket\<close> is given, the bytes are sent by the plain \<open>Write\<close>, so that the
  call has the same result as one without them.
\<close>

theorem connected_write_drops_oob:
  assumes "cmsg_linux A P" and "os_Write sock = Some write1" and "cap_GSO cap" and "cap_ECN cap" and "ToHeaderBits ecn = Ret x"
  shows "oobConn_WritePacket P A lg cap (basicWriter_Write sock True) b oob gso ecn addr =
    oobConn_WritePacket P A lg cap (basicWriter_Write sock True) b [] 0 ECNUnsupported addr"
proof -
  obtain oob1 where 1: "write_gso P A lg cap gso oob = Ret (Inr oob1)"
    using cmsg_linux.write_gso_returns [OF assms(1,3)] by blast
  obtain oob2 where 2: "write_ecn P A lg cap ecn addr oob1 = Ret (Inr oob2)"
    using cmsg_linux.write_ecn_returns [OF assms(1,4,5)] by blast
  have "basicWriter_Write sock True b oob2 addr = basicWriter_Write sock True b [] addr"
    using assms(2) by (simp add: basicWriter_Write_def)
  then show ?thesis
    by (simp add: oobConn_WritePacket_def 1 2) (simp add: write_gso_def write_ecn_def)
qed

theorem connected_write_drops_oob_witness:
  "oobConn_WritePacket linux linux64 \<lparr>defaultLogger = None\<rparr> (NewConnCapabilities True True True)
      (basicWriter_Write \<lparr>os_Write = Some (\<lambda>b. (int (length b), None)), os_WriteMsgUDP = (\<lambda>b oob a. (0, 0, None))\<rparr> True)
      [1, 2] [] 1200 ECNCE None
   = oobConn_WritePacket linux linux64 \<lparr>defaultLogger = None\<rparr> (NewConnCapabilities True True True)
      (basicWriter_Write \<lparr>os_Write = Some (\<lambda>b. (int (length b), None)), os_WriteMsgUDP = (\<lambda>b oob a. (0, 0, None))\<rparr> True)
      [1, 2] [] 0 ECNUnsupported None"
  by (rule connected_write_drops_oob [OF lxc.cmsg_linux_axioms]) (simp_all add: ToHeaderBits_def ECN_defs)

text \<open>
  C33: A \<open>BasicConn\<close> over an unconnected packet connection delivers each datagram whole, with its sender and
  without control messages, in the sense that the demultiplexer relies on.
\<close>

theorem basic_conn_delivers:
  assumes "\<not> bc_isConnected c \<or> pc_connected (bc_PacketConn c) = None" and "length d \<le> receiveMTU"
    and "\<forall>b. receiveMTU \<le> length b \<longrightarrow> pc_ReadFrom (bc_PacketConn c) b = ((int (length d), Some a, None), snd (go_copy b d))"
  shows "delivers (BasicConn_ReadPacket c) a (d, [], ECNUnsupported)"
proof -
  have "BasicConn_ReadPacket c b oob =
      \<lparr>rr_n = int (length d), rr_oobN = 0, rr_ecn = ECNUnsupported, rr_addr = Some a, rr_err = None, rr_b = snd (go_copy b d), rr_oob = oob\<rparr>"
    if "receiveMTU \<le> length b" for b oob
    using assms(1,3) that by (auto simp: BasicConn_ReadPacket_def split: bool.splits option.splits)
  moreover have "take (length d) (snd (go_copy b d)) = d" if "receiveMTU \<le> length b" for b
    using go_copy_prefix [of b d] assms(2) that by (simp add: go_copy_all)
  ultimately show ?thesis
    using assms(2) by (simp add: delivers_def)
qed

theorem basic_conn_delivers_witness:
  "delivers (BasicConn_ReadPacket (mem_basic [1, 2] \<lparr>addr_String = ''a'', addr_UDP = None\<rparr>))
     \<lparr>addr_String = ''a'', addr_UDP = None\<rparr> ([1, 2], [], ECNUnsupported)"
  by (rule basic_conn_delivers)
    (auto simp: mem_basic_def mem_conn_def receiveMTU_def go_copy_def Let_def)

end
