(* ===== verification/Sock_Setup.thy ===== *)
theory Sock_Setup
  imports Kernel_Helpers Raw_Conn
begin

text \<open>
  The socket options: the buffers (\<open>sys_conn_buffers.go\<close>, \<open>sys_conn_buffers_write.go\<close>) and the
  don't-fragment bit (\<open>sys_conn_df_<os>.go\<close>).  The kernel is a world of any type; a \<open>syscall.RawConn\<close> is
  the record of the calls the code makes on it.  The locale \<open>sock_options\<close> is the contract of the kernel
  for options that hold a plain setting.
\<close>

section \<open>The kernel\<close>

text \<open>
  The operating systems the package builds for.  A socket option is named by its level and name
  together; its number is the platform's.
\<close>

datatype os = Linux | Darwin | FreeBSD | Windows

datatype sockopt =
    SO_RCVBUF | SO_SNDBUF | SO_RCVBUFFORCE | SO_SNDBUFFORCE | UDP_SEGMENT_opt
  | IP_RECVTOS | IPV6_RECVTCLASS | ipv4PKTINFO | IPV6_RECVPKTINFO
  | IP_MTU_DISCOVER | IPV6_MTU_DISCOVER | IP_DONTFRAG | IPV6_DONTFRAG | IPV6_V6ONLY

text \<open>The dynamic type of a \<open>unix.Sockaddr\<close>.\<close>

datatype sockaddr = SockaddrInet4 | SockaddrInet6 | SockaddrOther string

text \<open>
  \<open>sc_Control\<close> is the error with which \<open>Control\<close> refuses to run its function (the descriptor is
  closed).  \<open>getsockopt\<close> and \<open>getsockname\<close> read the world, \<open>setsockopt\<close> may change it.
\<close>

record 'w sysconn =
  sc_Control :: "'w \<Rightarrow> err option"
  sc_GetsockoptInt :: "sockopt \<Rightarrow> 'w \<Rightarrow> int \<times> err option"
  sc_SetsockoptInt :: "sockopt \<Rightarrow> int \<Rightarrow> 'w \<Rightarrow> err option \<times> 'w"
  sc_Getsockname :: "'w \<Rightarrow> err + sockaddr"

definition Control :: "'w sysconn \<Rightarrow> ('w \<Rightarrow> 'a \<times> 'w) \<Rightarrow> 'w \<Rightarrow> (err + 'a) \<times> 'w" where
  "Control S f w =
     (case sc_Control S w of
        Some e \<Rightarrow> (Inl e, w)
      | None \<Rightarrow> (case f w of (x, w) \<Rightarrow> (Inr x, w)))"

section \<open>Socket buffers\<close>

definition DesiredReceiveBufferSize :: int where "DesiredReceiveBufferSize = 2 ^ 20 * 7"
definition DesiredSendBufferSize :: int where "DesiredSendBufferSize = 2 ^ 20 * 7"

definition unix_InspectReadBuffer :: "'w sysconn \<Rightarrow> 'w \<Rightarrow> int \<times> err option" where
  "unix_InspectReadBuffer c w =
     (case fst (Control c (\<lambda>w. (sc_GetsockoptInt c SO_RCVBUF w, w)) w) of
        Inl e \<Rightarrow> (0, Some e)
      | Inr (sz, serr) \<Rightarrow> (sz, serr))"

definition unix_InspectWriteBuffer :: "'w sysconn \<Rightarrow> 'w \<Rightarrow> int \<times> err option" where
  "unix_InspectWriteBuffer c w =
     (case fst (Control c (\<lambda>w. (sc_GetsockoptInt c SO_SNDBUF w, w)) w) of
        Inl e \<Rightarrow> (0, Some e)
      | Inr (sz, serr) \<Rightarrow> (sz, serr))"

definition windows_InspectReadBuffer :: "'w sysconn \<Rightarrow> 'w \<Rightarrow> int \<times> err option" where
  "windows_InspectReadBuffer c w =
     (case fst (Control c (\<lambda>w. (sc_GetsockoptInt c SO_RCVBUF w, w)) w) of
        Inl e \<Rightarrow> (0, Some e)
      | Inr (sz, serr) \<Rightarrow> (sz, serr))"

definition windows_InspectWriteBuffer :: "'w sysconn \<Rightarrow> 'w \<Rightarrow> int \<times> err option" where
  "windows_InspectWriteBuffer c w =
     (case fst (Control c (\<lambda>w. (sc_GetsockoptInt c SO_SNDBUF w, w)) w) of
        Inl e \<Rightarrow> (0, Some e)
      | Inr (sz, serr) \<Rightarrow> (sz, serr))"

fun InspectReadBuffer :: "os \<Rightarrow> 'w sysconn \<Rightarrow> 'w \<Rightarrow> int \<times> err option" where
  "InspectReadBuffer Windows = windows_InspectReadBuffer"
| "InspectReadBuffer _ = unix_InspectReadBuffer"

fun InspectWriteBuffer :: "os \<Rightarrow> 'w sysconn \<Rightarrow> 'w \<Rightarrow> int \<times> err option" where
  "InspectWriteBuffer Windows = windows_InspectWriteBuffer"
| "InspectWriteBuffer _ = unix_InspectWriteBuffer"

definition linux_forceSetReceiveBuffer :: "'w sysconn \<Rightarrow> int \<Rightarrow> 'w \<Rightarrow> err option \<times> 'w" where
  "linux_forceSetReceiveBuffer c bytes w =
     (case Control c (sc_SetsockoptInt c SO_RCVBUFFORCE bytes) w of
        (Inl e, w) \<Rightarrow> (Some e, w)
      | (Inr serr, w) \<Rightarrow> (serr, w))"

definition linux_forceSetSendBuffer :: "'w sysconn \<Rightarrow> int \<Rightarrow> 'w \<Rightarrow> err option \<times> 'w" where
  "linux_forceSetSendBuffer c bytes w =
     (case Control c (sc_SetsockoptInt c SO_SNDBUFFORCE bytes) w of
        (Inl e, w) \<Rightarrow> (Some e, w)
      | (Inr serr, w) \<Rightarrow> (serr, w))"

definition nonlinux_forceSetReceiveBuffer :: "'w sysconn \<Rightarrow> int \<Rightarrow> 'w \<Rightarrow> err option \<times> 'w" where
  "nonlinux_forceSetReceiveBuffer c bytes w = (None, w)"

definition nonlinux_forceSetSendBuffer :: "'w sysconn \<Rightarrow> int \<Rightarrow> 'w \<Rightarrow> err option \<times> 'w" where
  "nonlinux_forceSetSendBuffer c bytes w = (None, w)"

fun forceSetReceiveBuffer :: "os \<Rightarrow> 'w sysconn \<Rightarrow> int \<Rightarrow> 'w \<Rightarrow> err option \<times> 'w" where
  "forceSetReceiveBuffer Linux = linux_forceSetReceiveBuffer"
| "forceSetReceiveBuffer _ = nonlinux_forceSetReceiveBuffer"

fun forceSetSendBuffer :: "os \<Rightarrow> 'w sysconn \<Rightarrow> int \<Rightarrow> 'w \<Rightarrow> err option \<times> 'w" where
  "forceSetSendBuffer Linux = linux_forceSetSendBuffer"
| "forceSetSendBuffer _ = nonlinux_forceSetSendBuffer"

text \<open>\<open>%d\<close>, and a size in kiB (division truncates towards zero).\<close>

definition show_int :: "int \<Rightarrow> string" where
  "show_int n = (if n < 0 then ''-'' @ digits10 (nat (- n)) else digits10 (nat n))"

definition kiB :: "int \<Rightarrow> string" where
  "kiB n = show_int (sgn n * (\<bar>n\<bar> div 1024))"

text \<open>
  A \<open>net.PacketConn\<close>, by the interfaces it implements: the methods that the code looks for with type
  assertions are optional.  \<open>pn_MsgUDP\<close> stands for \<open>ReadMsgUDP\<close> and \<open>WriteMsgUDP\<close>, \<open>pn_ReadBatch\<close> and
  \<open>pn_WriteBatch\<close> for the methods of these names.
\<close>

record 'w net_conn =
  pn_SetReadBuffer :: "(int \<Rightarrow> 'w \<Rightarrow> err option \<times> 'w) option"
  pn_SetWriteBuffer :: "(int \<Rightarrow> 'w \<Rightarrow> err option \<times> 'w) option"
  pn_SyscallConn :: "('w \<Rightarrow> err + 'w sysconn) option"
  pn_MsgUDP :: bool
  pn_ReadBatch :: bool
  pn_WriteBatch :: bool
  pn_LocalAddr :: "net_addr option"
  pn_ops :: packet_conn

text \<open>
  The body shared by the two functions: \<open>sys_conn_buffers_write.go\<close> is generated from
  \<open>sys_conn_buffers.go\<close> by replacing the names of the buffer, of the methods and of the helpers, which
  are the arguments here.  Both files use \<open>DesiredReceiveBufferSize\<close>.
\<close>

definition setBuffer ::
    "log_state \<Rightarrow> string \<Rightarrow> (int \<Rightarrow> 'w \<Rightarrow> err option \<times> 'w) \<Rightarrow> ('w sysconn \<Rightarrow> 'w \<Rightarrow> int \<times> err option) \<Rightarrow>
     ('w sysconn \<Rightarrow> int \<Rightarrow> 'w \<Rightarrow> err option \<times> 'w) \<Rightarrow> 'w sysconn \<Rightarrow> 'w \<Rightarrow> (err option \<times> 'w) go" where
  "setBuffer lg what setb inspect force syscallConn w =
     (let failed = ''failed to determine '' @ what @ '' buffer size'' in
      case inspect syscallConn w of (sz, err) \<Rightarrow>
      case err of Some e \<Rightarrow> Ret (Some (ErrWrap failed e), w) | None \<Rightarrow>
      if DesiredReceiveBufferSize \<le> sz then
        go_bind (Log lg DebugLevel (''Conn has '' @ what @ '' buffer of '' @ kiB sz @ '' kiB (wanted: at least ''
            @ kiB DesiredReceiveBufferSize @ '' kiB)'')) (\<lambda>_. Ret (None, w))
      else
        let w = snd (setb DesiredReceiveBufferSize w) in
        case inspect syscallConn w of (newSize, err) \<Rightarrow>
        case (if newSize < DesiredReceiveBufferSize
              then let w = snd (force syscallConn DesiredReceiveBufferSize w) in (inspect syscallConn w, w)
              else ((newSize, err), w)) of ((newSize, err), w) \<Rightarrow>
        case err of Some e \<Rightarrow> Ret (Some (ErrWrap failed e), w) | None \<Rightarrow>
        if newSize = sz then
          Ret (Some (ErrMsg (''failed to increase '' @ what @ '' buffer size (wanted: '' @ kiB DesiredReceiveBufferSize
            @ '' kiB, got '' @ kiB newSize @ '' kiB)'')), w)
        else if newSize < DesiredReceiveBufferSize then
          Ret (Some (ErrMsg (''failed to sufficiently increase '' @ what @ '' buffer size (was: '' @ kiB sz
            @ '' kiB, wanted: '' @ kiB DesiredReceiveBufferSize @ '' kiB, got: '' @ kiB newSize @ '' kiB)'')), w)
        else
          go_bind (Log lg DebugLevel (''Increased '' @ what @ '' buffer size to '' @ kiB newSize @ '' kiB'')) (\<lambda>_.
            Ret (None, w)))"

text \<open>\<open>syscallConn\<close> stays nil when \<open>SyscallConn\<close> is missing or fails.\<close>

definition obtain_syscallConn :: "'w net_conn \<Rightarrow> 'w \<Rightarrow> 'w sysconn option" where
  "obtain_syscallConn c w =
     (case pn_SyscallConn c of
        None \<Rightarrow> None
      | Some sc \<Rightarrow> (case sc w of Inl e \<Rightarrow> None | Inr S \<Rightarrow> Some S))"

definition SetReceiveBuffer :: "os \<Rightarrow> log_state \<Rightarrow> 'w net_conn \<Rightarrow> 'w \<Rightarrow> (err option \<times> 'w) go" where
  "SetReceiveBuffer os lg c w =
     (case pn_SetReadBuffer c of
        None \<Rightarrow> Ret (Some (ErrMsg ''connection doesn't allow setting of receive buffer size. Not a *net.UDPConn?''), w)
      | Some setb \<Rightarrow>
          (case obtain_syscallConn c w of
             None \<Rightarrow> Ret (setb DesiredReceiveBufferSize w)
           | Some S \<Rightarrow> setBuffer lg ''receive'' setb (InspectReadBuffer os) (forceSetReceiveBuffer os) S w))"

definition SetSendBuffer :: "os \<Rightarrow> log_state \<Rightarrow> 'w net_conn \<Rightarrow> 'w \<Rightarrow> (err option \<times> 'w) go" where
  "SetSendBuffer os lg c w =
     (case pn_SetWriteBuffer c of
        None \<Rightarrow> Ret (Some (ErrMsg ''connection doesn't allow setting of send buffer size. Not a *net.UDPConn?''), w)
      | Some setb \<Rightarrow>
          (case obtain_syscallConn c w of
             None \<Rightarrow> Ret (setb DesiredReceiveBufferSize w)
           | Some S \<Rightarrow> setBuffer lg ''send'' setb (InspectWriteBuffer os) (forceSetSendBuffer os) S w))"

section \<open>The don't-fragment bit\<close>

text \<open>
  Linux and Windows try both IP versions and need one of them.  The value is \<open>IP_PMTUDISC_PROBE\<close> on
  Linux and 1 elsewhere.
\<close>

definition IP_PMTUDISC_PROBE :: int where "IP_PMTUDISC_PROBE = 3"

definition set_two :: "'w sysconn \<Rightarrow> sockopt \<Rightarrow> sockopt \<Rightarrow> int \<Rightarrow> 'w \<Rightarrow> (err option \<times> err option) \<times> 'w" where
  "set_two S o4 o6 v w =
     (case sc_SetsockoptInt S o4 v w of (e4, w) \<Rightarrow>
      case sc_SetsockoptInt S o6 v w of (e6, w) \<Rightarrow> ((e4, e6), w))"

definition df_result :: "log_state \<Rightarrow> err option \<Rightarrow> err option \<Rightarrow> 'w \<Rightarrow> ((bool \<times> err option) \<times> 'w) go" where
  "df_result lg errDFIPv4 errDFIPv6 w =
     (case (errDFIPv4, errDFIPv6) of
        (None, None) \<Rightarrow> go_bind (Log lg DebugLevel ''Setting DF for IPv4 and IPv6.'') (\<lambda>_. Ret ((True, None), w))
      | (None, Some _) \<Rightarrow> go_bind (Log lg DebugLevel ''Setting DF for IPv4.'') (\<lambda>_. Ret ((True, None), w))
      | (Some _, None) \<Rightarrow> go_bind (Log lg DebugLevel ''Setting DF for IPv6.'') (\<lambda>_. Ret ((True, None), w))
      | (Some _, Some _) \<Rightarrow> Ret ((False, Some (ErrMsg ''setting DF failed for both IPv4 and IPv6'')), w))"

definition linux_setDF :: "log_state \<Rightarrow> 'w sysconn \<Rightarrow> 'w \<Rightarrow> ((bool \<times> err option) \<times> 'w) go" where
  "linux_setDF lg rawConn w =
     (case Control rawConn (set_two rawConn IP_MTU_DISCOVER IPV6_MTU_DISCOVER IP_PMTUDISC_PROBE) w of
        (Inl e, w) \<Rightarrow> Ret ((False, Some e), w)
      | (Inr (errDFIPv4, errDFIPv6), w) \<Rightarrow> df_result lg errDFIPv4 errDFIPv6 w)"

definition windows_setDF :: "log_state \<Rightarrow> 'w sysconn \<Rightarrow> 'w \<Rightarrow> ((bool \<times> err option) \<times> 'w) go" where
  "windows_setDF lg rawConn w =
     (case Control rawConn (set_two rawConn IP_DONTFRAG IPV6_DONTFRAG 1) w of
        (Inl e, w) \<Rightarrow> Ret ((False, Some e), w)
      | (Inr (errDFIPv4, errDFIPv6), w) \<Rightarrow> df_result lg errDFIPv4 errDFIPv6 w)"

text \<open>
  macOS: the function that \<open>Control\<close> runs gives the control error and the flag \<open>disableDF\<close>.
\<close>

definition darwin_df_control :: "int \<Rightarrow> 'w sysconn \<Rightarrow> 'w \<Rightarrow> (err option \<times> bool) \<times> 'w" where
  "darwin_df_control version S w =
     (case sc_Getsockname S w of
        Inl e \<Rightarrow> ((Some (ErrWrap ''getsockname'' e), False), w)
      | Inr SockaddrInet4 \<Rightarrow>
          (case sc_SetsockoptInt S IP_DONTFRAG 1 w of (e, w) \<Rightarrow> ((e, False), w))
      | Inr SockaddrInet6 \<Rightarrow>
          (case sc_SetsockoptInt S IPV6_DONTFRAG 1 w of (e, w) \<Rightarrow>
             if version < macOSVersion15 then
               (case sc_GetsockoptInt S IPV6_V6ONLY w of
                  (_, Some e') \<Rightarrow> ((Some (ErrWrap ''getting IPV6_V6ONLY'' e'), False), w)
                | (v6only, None) \<Rightarrow> ((e, v6only = 0), w))
             else ((e, False), w))
      | Inr (SockaddrOther t) \<Rightarrow> ((Some (ErrMsg (''unknown address type: '' @ t)), False), w))"

definition darwin_setDF :: "err + byte list \<Rightarrow> 'w sysconn \<Rightarrow> 'w \<Rightarrow> (bool \<times> err option) \<times> 'w" where
  "darwin_setDF uname rawConn w =
     (case getMacOSVersion uname of
        Inl e \<Rightarrow> ((False, Some e), w)
      | Inr version \<Rightarrow>
          if version < macOSVersion11 then ((False, None), w)
          else
            (case Control rawConn (darwin_df_control version rawConn) w of
               (Inl e, w) \<Rightarrow> ((False, Some e), w)
             | (Inr (Some e, _), w) \<Rightarrow> ((False, Some e), w)
             | (Inr (None, disableDF), w) \<Rightarrow> ((\<not> disableDF, None), w)))"

definition other_setDF :: "'w sysconn \<Rightarrow> 'w \<Rightarrow> (bool \<times> err option) \<times> 'w" where
  "other_setDF rawConn w = ((False, None), w)"

text \<open>The environment of the process: its variables, \<open>uname\<close>, and the texts of the error numbers.\<close>

record env =
  e_getenv :: environ
  e_uname :: "err + byte list"
  e_strerror :: "string \<Rightarrow> string"

definition setDF :: "os \<Rightarrow> env \<Rightarrow> log_state \<Rightarrow> 'w sysconn \<Rightarrow> 'w \<Rightarrow> ((bool \<times> err option) \<times> 'w) go" where
  "setDF os E lg rawConn w =
     (case os of
        Linux \<Rightarrow> linux_setDF lg rawConn w
      | Windows \<Rightarrow> windows_setDF lg rawConn w
      | Darwin \<Rightarrow> Ret (darwin_setDF (e_uname E) rawConn w)
      | FreeBSD \<Rightarrow> Ret (other_setDF rawConn w))"

section \<open>Facts about the set-up\<close>

lemma setBuffer_cases:
  assumes "quiet lg"
  shows "case setBuffer lg what setb inspect force S w of
      Ret (r, w') \<Rightarrow> (r = None \<longleftrightarrow> (\<exists>n \<ge> DesiredReceiveBufferSize. inspect S w' = (n, None)))
        \<and> ((\<exists>n \<ge> DesiredReceiveBufferSize. inspect S w = (n, None)) \<longrightarrow> w' = w)
    | _ \<Rightarrow> False"
proof -
  obtain sz e where i1: "inspect S w = (sz, e)" by fastforce
  let ?w1 = "snd (setb DesiredReceiveBufferSize w)"
  obtain sz1 e1 where i2: "inspect S ?w1 = (sz1, e1)" by fastforce
  let ?w2 = "snd (force S DesiredReceiveBufferSize ?w1)"
  obtain sz2 e2 where i3: "inspect S ?w2 = (sz2, e2)" by fastforce
  note d = setBuffer_def Let_def i1 i2 i3
  consider (bad) x where "e = Some x" | (big) "e = None" "DesiredReceiveBufferSize \<le> sz"
    | (forced) "e = None" "\<not> DesiredReceiveBufferSize \<le> sz" "sz1 < DesiredReceiveBufferSize"
    | (set) "e = None" "\<not> DesiredReceiveBufferSize \<le> sz" "\<not> sz1 < DesiredReceiveBufferSize"
    by (cases e) auto
  then show ?thesis
  proof cases
    case bad
    then show ?thesis by (simp add: d)
  next
    case big
    then show ?thesis using assms by (simp add: d)
  next
    case forced
    then show ?thesis
      using assms by (cases e2) (auto simp: d)
  next
    case set
    then show ?thesis
      using assms by (cases e1) (auto simp: d)
  qed
qed

lemma setBuffer_result:
  assumes "quiet lg"
  shows "\<exists>r w'. setBuffer lg what setb inspect force S w = Ret (r, w')
    \<and> (r = None \<longleftrightarrow> (\<exists>n \<ge> DesiredReceiveBufferSize. inspect S w' = (n, None)))
    \<and> ((\<exists>n \<ge> DesiredReceiveBufferSize. inspect S w = (n, None)) \<longrightarrow> w' = w)"
  using setBuffer_cases [OF assms, where what = what and setb = setb and inspect = inspect and force = force and S = S and w = w]
  by (auto split: go.splits)

section \<open>The contract of the kernel\<close>

text \<open>
  The options that hold a plain setting: reading one back gives the value it was set to, and setting one
  leaves the others alone.  The buffer sizes are not of this kind, the kernel adjusts them.
\<close>

definition plain_opt :: "sockopt \<Rightarrow> bool" where
  "plain_opt opt \<longleftrightarrow> opt \<notin> {SO_RCVBUF, SO_SNDBUF, SO_RCVBUFFORCE, SO_SNDBUFFORCE}"

locale sock_options =
  fixes S :: "'w sysconn"
  assumes set_get: "plain_opt opt \<Longrightarrow> sc_SetsockoptInt S opt v w = (None, w') \<Longrightarrow> sc_GetsockoptInt S opt w' = (v, None)"
    and set_frame: "plain_opt opt \<Longrightarrow> sc_SetsockoptInt S opt v w = (e, w') \<Longrightarrow> opt' \<noteq> opt \<Longrightarrow>
      sc_GetsockoptInt S opt' w' = sc_GetsockoptInt S opt' w"
begin

lemma set_two_get:
  assumes "set_two S o4 o6 v w = ((e4, e6), w')" and "plain_opt o4" and "plain_opt o6" and "o4 \<noteq> o6"
  shows "e4 = None \<Longrightarrow> sc_GetsockoptInt S o4 w' = (v, None)" and "e6 = None \<Longrightarrow> sc_GetsockoptInt S o6 w' = (v, None)"
    and "opt \<noteq> o4 \<Longrightarrow> opt \<noteq> o6 \<Longrightarrow> sc_GetsockoptInt S opt w' = sc_GetsockoptInt S opt w"
proof -
  obtain w1 where s: "sc_SetsockoptInt S o4 v w = (e4, w1)" "sc_SetsockoptInt S o6 v w1 = (e6, w')"
    using assms(1) by (auto simp: set_two_def split: prod.splits)
  show "e4 = None \<Longrightarrow> sc_GetsockoptInt S o4 w' = (v, None)"
    using set_get [OF assms(2), of v w w1] set_frame [OF assms(3) s(2) assms(4)] s(1) by simp
  show "e6 = None \<Longrightarrow> sc_GetsockoptInt S o6 w' = (v, None)"
    using set_get [OF assms(3)] s(2) by simp
  show "opt \<noteq> o4 \<Longrightarrow> opt \<noteq> o6 \<Longrightarrow> sc_GetsockoptInt S opt w' = sc_GetsockoptInt S opt w"
    using set_frame [OF assms(2) s(1)] set_frame [OF assms(3) s(2)] by simp
qed

end

text \<open>The settings by which each system is asked not to fragment.\<close>

fun df_settings :: "os \<Rightarrow> (sockopt \<times> int) list" where
  "df_settings Linux = [(IP_MTU_DISCOVER, IP_PMTUDISC_PROBE), (IPV6_MTU_DISCOVER, IP_PMTUDISC_PROBE)]"
| "df_settings Windows = [(IP_DONTFRAG, 1), (IPV6_DONTFRAG, 1)]"
| "df_settings Darwin = [(IP_DONTFRAG, 1), (IPV6_DONTFRAG, 1)]"
| "df_settings FreeBSD = []"

definition df_set :: "os \<Rightarrow> 'w sysconn \<Rightarrow> 'w \<Rightarrow> bool" where
  "df_set os S w \<longleftrightarrow> (\<exists>(opt, v) \<in> set (df_settings os). sc_GetsockoptInt S opt w = (v, None))"

lemma df_result_True: "df_result lg e4 e6 w = Ret ((True, e), w') \<Longrightarrow> (e4 = None \<or> e6 = None) \<and> e = None \<and> w' = w"
  by (auto simp: df_result_def go_bind_Ret_iff split: option.splits)

lemma Control_Inr: "Control S f w = (Inr x, w') \<Longrightarrow> f w = (x, w')"
  by (auto simp: Control_def split: option.splits prod.splits)

context sock_options
begin

lemma set_two_df:
  assumes "Control S (set_two S o4 o6 v) w = (Inr (e4, e6), w1)" and "df_result lg e4 e6 w1 = Ret ((True, e), w')"
    and "(o4, v) \<in> set (df_settings os)" and "(o6, v) \<in> set (df_settings os)"
    and "plain_opt o4" and "plain_opt o6" and "o4 \<noteq> o6"
  shows "df_set os S w'"
proof -
  have "set_two S o4 o6 v w = ((e4, e6), w1)"
    by (rule Control_Inr [OF assms(1)])
  note g = set_two_get(1,2) [OF this assms(5-7)]
  show ?thesis
    using df_result_True [OF assms(2)] g assms(3,4) by (auto simp: df_set_def)
qed

lemma darwin_df_True:
  assumes "darwin_df_control version S w = ((None, False), w')"
  shows "df_set Darwin S w'"
proof -
  consider "sc_SetsockoptInt S IP_DONTFRAG 1 w = (None, w')" | "sc_SetsockoptInt S IPV6_DONTFRAG 1 w = (None, w')"
    using assms by (auto simp: darwin_df_control_def split: sum.splits sockaddr.splits prod.splits option.splits if_splits)
  then have "\<exists>opt \<in> {IP_DONTFRAG, IPV6_DONTFRAG}. sc_GetsockoptInt S opt w' = (1, None)"
    using set_get [of IP_DONTFRAG 1 w w'] set_get [of IPV6_DONTFRAG 1 w w'] by cases (auto simp: plain_opt_def)
  then show ?thesis
    by (auto simp: df_set_def)
qed

lemma setDF_honest:
  assumes "setDF os E lg S w = Ret ((True, e), w')"
  shows "df_set os S w'"
proof (cases os)
  case Linux
  then obtain e4 e6 w1 where "Control S (set_two S IP_MTU_DISCOVER IPV6_MTU_DISCOVER IP_PMTUDISC_PROBE) w = (Inr (e4, e6), w1)"
      "df_result lg e4 e6 w1 = Ret ((True, e), w')"
    using assms by (auto simp: setDF_def linux_setDF_def split: prod.splits sum.splits)
  then show ?thesis
    by (rule set_two_df) (simp_all add: Linux plain_opt_def)
next
  case Windows
  then obtain e4 e6 w1 where "Control S (set_two S IP_DONTFRAG IPV6_DONTFRAG 1) w = (Inr (e4, e6), w1)"
      "df_result lg e4 e6 w1 = Ret ((True, e), w')"
    using assms by (auto simp: setDF_def windows_setDF_def split: prod.splits sum.splits)
  then show ?thesis
    by (rule set_two_df) (simp_all add: Windows plain_opt_def)
next
  case Darwin
  then obtain version where "Control S (darwin_df_control version S) w = (Inr (None, False), w')"
    using assms by (auto simp: setDF_def darwin_setDF_def split: prod.splits sum.splits option.splits if_splits)
  then show ?thesis
    using darwin_df_True [of version w w'] Control_Inr Darwin by metis
next
  case FreeBSD
  then show ?thesis
    using assms by (simp add: setDF_def other_setDF_def)
qed

end

section \<open>A kernel\<close>

text \<open>
  A kernel with the documented behaviour of Linux: \<open>SO_RCVBUF\<close> and \<open>SO_SNDBUF\<close> store twice the value,
  limited unless a privileged process forces it; options in \<open>missing\<close> are refused.
\<close>

definition mem_kernel :: "int \<Rightarrow> bool \<Rightarrow> sockopt list \<Rightarrow> (sockopt \<Rightarrow> int) sysconn" where
  "mem_kernel limit privileged missing =
     \<lparr>sc_Control = (\<lambda>_. None),
      sc_GetsockoptInt = (\<lambda>opt w. (w opt, None)),
      sc_SetsockoptInt = (\<lambda>opt v w.
        if opt \<in> set missing then (Some (Errno ''ENOPROTOOPT''), w)
        else case opt of
          SO_RCVBUF \<Rightarrow> (None, w(SO_RCVBUF := 2 * min v limit))
        | SO_SNDBUF \<Rightarrow> (None, w(SO_SNDBUF := 2 * min v limit))
        | SO_RCVBUFFORCE \<Rightarrow> if privileged then (None, w(SO_RCVBUF := 2 * v)) else (Some (Errno ''EPERM''), w)
        | SO_SNDBUFFORCE \<Rightarrow> if privileged then (None, w(SO_SNDBUF := 2 * v)) else (Some (Errno ''EPERM''), w)
        | _ \<Rightarrow> (None, w(opt := v))),
      sc_Getsockname = (\<lambda>_. Inr SockaddrInet6)\<rparr>"

interpretation memk: sock_options "mem_kernel limit privileged missing" for limit privileged missing
proof
  fix opt v w w'
  assume "plain_opt opt" and "sc_SetsockoptInt (mem_kernel limit privileged missing) opt v w = (None, w')"
  then show "sc_GetsockoptInt (mem_kernel limit privileged missing) opt w' = (v, None)"
    by (cases opt) (auto simp: mem_kernel_def plain_opt_def split: if_splits)
next
  fix opt v w e w' opt'
  assume "plain_opt opt" and "sc_SetsockoptInt (mem_kernel limit privileged missing) opt v w = (e, w')" and "opt' \<noteq> opt"
  then show "sc_GetsockoptInt (mem_kernel limit privileged missing) opt' w' = sc_GetsockoptInt (mem_kernel limit privileged missing) opt' w"
    by (cases opt) (auto simp: mem_kernel_def plain_opt_def split: if_splits)
qed

text \<open>A UDP socket of that kernel, bound to the unspecified address.\<close>

definition mem_udp :: "(sockopt \<Rightarrow> int) sysconn \<Rightarrow> (sockopt \<Rightarrow> int) net_conn" where
  "mem_udp S =
     \<lparr>pn_SetReadBuffer = Some (\<lambda>v. sc_SetsockoptInt S SO_RCVBUF v),
      pn_SetWriteBuffer = Some (\<lambda>v. sc_SetsockoptInt S SO_SNDBUF v),
      pn_SyscallConn = Some (\<lambda>_. Inr S), pn_MsgUDP = True, pn_ReadBatch = False, pn_WriteBatch = False,
      pn_LocalAddr = Some \<lparr>addr_String = ''[::]:53'', addr_UDP = Some (replicate 16 0)\<rparr>,
      pn_ops = \<lparr>pc_ReadFrom = (\<lambda>b. ((0, None, Some EOF), b)), pc_WriteTo = (\<lambda>b a. (0, Some EOF)),
        pc_connected = None, pc_RemoteAddr = Some None\<rparr>\<rparr>"

section \<open>Properties\<close>


lemmas buffer_defs = SetReceiveBuffer_def setBuffer_def obtain_syscallConn_def unix_InspectReadBuffer_def Control_def
  linux_forceSetReceiveBuffer_def DesiredReceiveBufferSize_def mem_kernel_def mem_udp_def Let_def


text \<open>
  C28: On macOS the answer of \<open>setDF\<close> for an IPv6 socket depends on the version as documented: no attempt
  before macOS 11, no DF for dual-stack sockets before macOS 15, and otherwise the result of the option;
  when it answers yes, the option is set.
\<close>

theorem darwin_df_by_version:
  assumes "sock_options S" and "sc_Control S w = None" and "sc_Getsockname S w = Inr SockaddrInet6"
    and "sc_SetsockoptInt S IPV6_DONTFRAG 1 w = (e, w')" and "sc_GetsockoptInt S IPV6_V6ONLY w = (v6only, None)"
    and "version < 2 ^ 63"
  shows "darwin_setDF (Inr (ascii (digits10 version @ ''.'') @ rest)) S w =
     (if version < 20 then ((False, None), w)
      else if e \<noteq> None then ((False, e), w')
      else ((24 \<le> version \<or> v6only \<noteq> 0, None), w'))
   \<and> (e = None \<longrightarrow> sc_GetsockoptInt S IPV6_DONTFRAG w' = (1, None))"
proof (rule conjI [OF _ impI])
  have v: "getMacOSVersion (Inr (ascii (digits10 version @ ''.'') @ rest)) = Inr (int version)"
    using getMacOSVersion_release [OF assms(6), of rest] by simp
  have six: "sc_GetsockoptInt S IPV6_V6ONLY w' = (v6only, None)"
    using sock_options.set_frame [OF assms(1) _ assms(4), of IPV6_V6ONLY] assms(5) by (simp add: plain_opt_def)
  show "darwin_setDF (Inr (ascii (digits10 version @ ''.'') @ rest)) S w =
     (if version < 20 then ((False, None), w)
      else if e \<noteq> None then ((False, e), w')
      else ((24 \<le> version \<or> v6only \<noteq> 0, None), w'))"
    unfolding darwin_setDF_def v using assms(2-4) six
    by (auto simp: Control_def darwin_df_control_def macOSVersion11_def macOSVersion15_def split: option.splits)
  show "e = None \<Longrightarrow> sc_GetsockoptInt S IPV6_DONTFRAG w' = (1, None)"
    using sock_options.set_get [OF assms(1) _ ] assms(4) by (simp add: plain_opt_def)
qed

theorem darwin_df_by_version_witness:
  "fst (darwin_setDF (Inr (ascii (digits10 23 @ ''.'') @ [])) (mem_kernel 0 False []) (\<lambda>_. 0)) = (False, None)
   \<and> fst (darwin_setDF (Inr (ascii (digits10 24 @ ''.'') @ [])) (mem_kernel 0 False []) (\<lambda>_. 0)) = (True, None)"
proof -
  have k: "sc_Control (mem_kernel 0 False []) (\<lambda>_. 0) = None" "sc_Getsockname (mem_kernel 0 False []) (\<lambda>_. 0) = Inr SockaddrInet6"
    "sc_SetsockoptInt (mem_kernel 0 False []) IPV6_DONTFRAG 1 (\<lambda>_. 0) = (None, (\<lambda>_. 0)(IPV6_DONTFRAG := 1))"
    "sc_GetsockoptInt (mem_kernel 0 False []) IPV6_V6ONLY (\<lambda>_. 0) = (0, None)"
    by (simp_all add: mem_kernel_def)
  show ?thesis
    using darwin_df_by_version [OF memk.sock_options_axioms k, of 23 "[]", THEN conjunct1]
      darwin_df_by_version [OF memk.sock_options_axioms k, of 24 "[]", THEN conjunct1] by simp
qed

end
