(* ===== verification/Wrap_Conn.thy ===== *)
theory Wrap_Conn
  imports Sock_Setup
begin

text \<open>
  \<open>newConn\<close> for each system (\<open>sys_conn_oob.go\<close>, \<open>sys_conn_windows.go\<close>, \<open>sys_conn_no_oob.go\<close>) and
  \<open>WrapConn\<close> (\<open>sys_conn.go\<close>), which sets a socket up and chooses the raw connection for it.
\<close>

section \<open>newConn\<close>

definition linux_IsGSOEnabled :: "env \<Rightarrow> 'w sysconn \<Rightarrow> 'w \<Rightarrow> bool" where
  "linux_IsGSOEnabled E conn w =
     (if kernelVersionMajor (e_uname E) < 5 then False
      else if ParseBool (e_getenv E ''QUIC_GO_DISABLE_GSO'') = Inr True then False
      else
        (case fst (Control conn (\<lambda>w. (snd (sc_GetsockoptInt conn UDP_SEGMENT_opt w), w)) w) of
           Inl e \<Rightarrow> False
         | Inr serr \<Rightarrow> serr = None))"

definition darwin_IsGSOEnabled :: "'w sysconn \<Rightarrow> bool" where
  "darwin_IsGSOEnabled conn = False"

definition freebsd_IsGSOEnabled :: "'w sysconn \<Rightarrow> bool" where
  "freebsd_IsGSOEnabled conn = False"

definition windows_IsGSOEnabled :: "'w net_conn \<Rightarrow> bool" where
  "windows_IsGSOEnabled conn = False"

text \<open>
  The three systems with out-of-band data, each with its constants and its tests for GSO and ECN.
\<close>

record 'w oob_os =
  oo_platform :: platform
  oo_IsGSOEnabled :: "'w sysconn \<Rightarrow> 'w \<Rightarrow> bool"
  oo_IsECNEnabled :: bool

definition oob_linux :: "env \<Rightarrow> 'w oob_os" where
  "oob_linux E = \<lparr>oo_platform = linux, oo_IsGSOEnabled = linux_IsGSOEnabled E,
     oo_IsECNEnabled = linux_IsECNEnabled (e_getenv E) (kernelVersionMajor (e_uname E))\<rparr>"

definition oob_darwin :: "env \<Rightarrow> 'w oob_os" where
  "oob_darwin E = \<lparr>oo_platform = darwin, oo_IsGSOEnabled = (\<lambda>c _. darwin_IsGSOEnabled c),
     oo_IsECNEnabled = darwin_IsECNEnabled (e_getenv E)\<rparr>"

definition oob_freebsd :: "env \<Rightarrow> 'w oob_os" where
  "oob_freebsd E = \<lparr>oo_platform = freebsd, oo_IsGSOEnabled = (\<lambda>c _. freebsd_IsGSOEnabled c),
     oo_IsECNEnabled = freebsd_IsECNEnabled (e_getenv E)\<rparr>"

text \<open>
  What is process-wide: the \<open>sync.Once\<close> of the buffer warning, the two buffer pools and the heap their
  buffers live on.
\<close>

record proc =
  pr_warned :: bool
  pr_bufferPool :: "nat list"
  pr_oobBufferPool :: "nat list"
  pr_heap :: rheap

text \<open>
  A raw connection.  The batch system calls of an \<open>oobConn\<close> come from the connection itself, if it has
  them, or from \<open>ipv4.NewPacketConn\<close>.
\<close>

datatype batch_source = FromConn | FromIPv4PacketConn

datatype oobWriter = BatchWriter batchWriter | BasicWriter bool

record oobConn =
  oc_reader :: batchReader
  oc_br :: batch_source
  oc_writer :: oobWriter
  oc_bw :: batch_source
  oc_cap :: ConnCapabilities

datatype rawConn = RawBasic BasicConn | RawOob oobConn

definition is_connected :: "'w net_conn \<Rightarrow> bool" where
  "is_connected c = (case pc_RemoteAddr (pn_ops c) of Some ra \<Rightarrow> ra \<noteq> None | None \<Rightarrow> False)"

text \<open>The socket options for receiving ECN bits and packet info, for both IP versions.\<close>

definition recv_options ::
    "'w sysconn \<Rightarrow> bool \<Rightarrow> 'w \<Rightarrow> ((err option \<times> err option) \<times> (err option \<times> err option)) \<times> 'w" where
  "recv_options S needsPacketInfo w =
     (case set_two S IP_RECVTOS IPV6_RECVTCLASS 1 w of (ecn, w) \<Rightarrow>
        if needsPacketInfo
        then (case set_two S ipv4PKTINFO IPV6_RECVPKTINFO 1 w of (pinf, w) \<Rightarrow> ((ecn, pinf), w))
        else ((ecn, (None, None)), w))"

definition log_ecn :: "log_state \<Rightarrow> err option \<times> err option \<Rightarrow> err option go" where
  "log_ecn lg errECN =
     (case errECN of
        (None, None) \<Rightarrow> go_bind (Log lg DebugLevel ''Activating reading of ECN bits for IPv4 and IPv6.'') (\<lambda>_. Ret None)
      | (None, Some _) \<Rightarrow> go_bind (Log lg DebugLevel ''Activating reading of ECN bits for IPv4.'') (\<lambda>_. Ret None)
      | (Some _, None) \<Rightarrow> go_bind (Log lg DebugLevel ''Activating reading of ECN bits for IPv6.'') (\<lambda>_. Ret None)
      | (Some _, Some _) \<Rightarrow> Ret (Some (ErrMsg ''activating ECN failed for both IPv4 and IPv6'')))"

definition log_pktinfo :: "log_state \<Rightarrow> err option \<times> err option \<Rightarrow> err option go" where
  "log_pktinfo lg errPI =
     (case errPI of
        (None, None) \<Rightarrow> go_bind (Log lg DebugLevel ''Activating reading of packet info for IPv4 and IPv6.'') (\<lambda>_. Ret None)
      | (None, Some _) \<Rightarrow> go_bind (Log lg DebugLevel ''Activating reading of packet info bits for IPv4.'') (\<lambda>_. Ret None)
      | (Some _, None) \<Rightarrow> go_bind (Log lg DebugLevel ''Activating reading of packet info bits for IPv6.'') (\<lambda>_. Ret None)
      | (Some _, Some _) \<Rightarrow> Ret (Some (ErrMsg ''activating packet info failed for both IPv4 and IPv6'')))"

definition needs_packet_info :: "'w net_conn \<Rightarrow> bool" where
  "needs_packet_info c =
     (case Option.bind (pn_LocalAddr c) addr_UDP of Some ip \<Rightarrow> IsUnspecified ip | None \<Rightarrow> False)"

text \<open>The reader, the writer and the capabilities, once the options are set.\<close>

definition build_oobConn ::
    "'w oob_os \<Rightarrow> (nat list \<Rightarrow> nat option) \<Rightarrow> 'w net_conn \<Rightarrow> bool \<Rightarrow> int \<Rightarrow> 'w sysconn \<Rightarrow> 'w \<Rightarrow> proc \<Rightarrow> oobConn \<times> proc" where
  "build_oobConn oo pick c supportsDF writeInterval rawConn w p =
     (let P = oo_platform oo;
          isConnected = is_connected c;
          br = (if pn_ReadBatch c then FromConn else FromIPv4PacketConn);
          bw = (if pn_WriteBatch c then FromConn else if br = FromIPv4PacketConn then br else FromIPv4PacketConn);
          r = newBatchReader P pick (pr_bufferPool p) (pr_oobBufferPool p) (pr_heap p);
          p = p\<lparr>pr_bufferPool := bufferPool r, pr_oobBufferPool := oobBufferPool r, pr_heap := hp r\<rparr>;
          (writer, p) =
            (if 0 < writeInterval then
               let wt = newBatchWriter P pick isConnected (pr_bufferPool p) (pr_oobBufferPool p) (pr_heap p) in
               (BatchWriter (wr wt),
                p\<lparr>pr_bufferPool := w_bufferPool wt, pr_oobBufferPool := w_oobBufferPool wt, pr_heap := w_hp wt\<rparr>)
             else (BasicWriter isConnected, p))
      in (\<lparr>oc_reader = rd r, oc_br = br, oc_writer = writer, oc_bw = bw,
           oc_cap = NewConnCapabilities supportsDF (oo_IsGSOEnabled oo rawConn w) (oo_IsECNEnabled oo)\<rparr>, p))"

text \<open>
  \<open>newConn\<close> of \<open>sys_conn_oob.go\<close>.  Its argument implements \<open>SyscallConn\<close>; a nil value would be a nil
  dereference.
\<close>

definition oob_newConn ::
    "'w oob_os \<Rightarrow> log_state \<Rightarrow> (nat list \<Rightarrow> nat option) \<Rightarrow> 'w net_conn \<Rightarrow> bool \<Rightarrow> int \<Rightarrow> 'w \<Rightarrow> proc \<Rightarrow>
     ((err + rawConn) \<times> 'w \<times> proc) go" where
  "oob_newConn oo lg pick c supportsDF writeInterval w p =
     (case pn_SyscallConn c of
        None \<Rightarrow> Panic NilDereference
      | Some sc \<Rightarrow>
          (case sc w of
             Inl e \<Rightarrow> Ret (Inl e, w, p)
           | Inr rawConn \<Rightarrow>
               (case Control rawConn (recv_options rawConn (needs_packet_info c)) w of
                  (Inl e, w) \<Rightarrow> Ret (Inl e, w, p)
                | (Inr (errECN, errPI), w) \<Rightarrow>
                    go_bind (log_ecn lg errECN) (\<lambda>e. case e of
                      Some e \<Rightarrow> Ret (Inl e, w, p)
                    | None \<Rightarrow>
                        go_bind (if needs_packet_info c then log_pktinfo lg errPI else Ret None) (\<lambda>e. case e of
                          Some e \<Rightarrow> Ret (Inl e, w, p)
                        | None \<Rightarrow>
                            (case build_oobConn oo pick c supportsDF writeInterval rawConn w p of
                               (conn, p) \<Rightarrow> Ret (Inr (RawOob conn), w, p)))))))"

text \<open>\<open>newConn\<close> of \<open>sys_conn_windows.go\<close>, and of \<open>sys_conn_no_oob.go\<close>, which no \<open>WrapConn\<close> can call.\<close>

definition windows_newConn :: "'w net_conn \<Rightarrow> bool \<Rightarrow> int \<Rightarrow> BasicConn" where
  "windows_newConn c supportsDF writeInterval =
     \<lparr>bc_PacketConn = pn_ops c, bc_isConnected = is_connected c, bc_supportsDF = supportsDF\<rparr>"

definition no_oob_newConn :: "'w net_conn \<Rightarrow> bool \<Rightarrow> BasicConn" where
  "no_oob_newConn c supportsDF =
     \<lparr>bc_PacketConn = pn_ops c, bc_isConnected = is_connected c, bc_supportsDF = supportsDF\<rparr>"

definition newConn ::
    "os \<Rightarrow> env \<Rightarrow> log_state \<Rightarrow> (nat list \<Rightarrow> nat option) \<Rightarrow> 'w net_conn \<Rightarrow> bool \<Rightarrow> int \<Rightarrow> 'w \<Rightarrow> proc \<Rightarrow>
     ((err + rawConn) \<times> 'w \<times> proc) go" where
  "newConn os E lg pick c supportsDF writeInterval w p =
     (case os of
        Linux \<Rightarrow> oob_newConn (oob_linux E) lg pick c supportsDF writeInterval w p
      | Darwin \<Rightarrow> oob_newConn (oob_darwin E) lg pick c supportsDF writeInterval w p
      | FreeBSD \<Rightarrow> oob_newConn (oob_freebsd E) lg pick c supportsDF writeInterval w p
      | Windows \<Rightarrow> Ret (Inr (RawBasic (windows_newConn c supportsDF writeInterval)), w, p))"

section \<open>WrapConn (sys\_conn.go)\<close>

text \<open>\<open>err.Error()\<close>, and \<open>strings.Contains\<close>.\<close>

fun Error_text :: "(string \<Rightarrow> string) \<Rightarrow> err \<Rightarrow> string" where
  "Error_text st ErrUnknownNetwork = ''udp: unknown network''"
| "Error_text st ErrMissingAddr = ''udp: missing address''"
| "Error_text st ErrAlreadyInUse = ''udp: already in use''"
| "Error_text st ErrUnexpectedNil = ''udp: unexpected nil''"
| "Error_text st ErrClosedSuperConn = ''udp: supConn closed''"
| "Error_text st ErrListenQueueExceeded = ''udp: listen queue exceeded''"
| "Error_text st EOF = ''EOF''"
| "Error_text st DeadlineExceeded = ''context deadline exceeded''"
| "Error_text st ErrUnsupported = ''unsupported operation''"
| "Error_text st (Errno n) = st n"
| "Error_text st (SyscallError call n) = call @ '': '' @ st n"
| "Error_text st (ErrMsg s) = s"
| "Error_text st (ErrWrap s e) = s @ '': '' @ Error_text st e"

fun Contains :: "string \<Rightarrow> string \<Rightarrow> bool" where
  "Contains [] substr = (substr = [])"
| "Contains (c # s) substr = (take (length substr) (c # s) = substr \<or> Contains s substr)"

definition bufferWarning :: "env \<Rightarrow> log_state \<Rightarrow> err option \<Rightarrow> proc \<Rightarrow> proc go" where
  "bufferWarning E lg err p =
     (case err of
        None \<Rightarrow> Ret p
      | Some e \<Rightarrow>
          if Contains (Error_text (e_strerror E) e) ''use of closed network connection'' then Ret p
          else if pr_warned p then Ret p
          else if ParseBool (e_getenv E ''QUIC_GO_DISABLE_RECEIVE_BUFFER_WARNING'') = Inr True
          then Ret (p\<lparr>pr_warned := True\<rparr>)
          else
            go_bind (Log lg WarnLevel (Error_text (e_strerror E) e
                @ ''. See https://github.com/quic-go/quic-go/wiki/UDP-Buffer-Sizes for details.'')) (\<lambda>_.
              Ret (p\<lparr>pr_warned := True\<rparr>)))"

text \<open>\<open>pc\<close> is OOB-capable when it has every method of \<open>OOBCapablePacketConn\<close>.\<close>

definition OOBCapablePacketConn :: "'w net_conn \<Rightarrow> bool" where
  "OOBCapablePacketConn pc \<longleftrightarrow> pn_SyscallConn pc \<noteq> None \<and> pn_SetReadBuffer pc \<noteq> None \<and> pn_MsgUDP pc"

text \<open>The middle part: DF on UDP sockets whose descriptor is accessible.\<close>

definition wrap_df :: "os \<Rightarrow> env \<Rightarrow> log_state \<Rightarrow> 'w net_conn \<Rightarrow> 'w \<Rightarrow> ((err + bool) \<times> 'w) go" where
  "wrap_df os E lg pc w =
     (case pn_SyscallConn pc of
        None \<Rightarrow> Ret (Inr False, w)
      | Some sc \<Rightarrow>
          (case sc w of
             Inl e \<Rightarrow> Ret (Inl e, w)
           | Inr rawConn \<Rightarrow>
               if Option.bind (pn_LocalAddr pc) addr_UDP = None then Ret (Inr False, w)
               else
                 go_bind (setDF os E lg rawConn w) (\<lambda>((supportsDF, err), w).
                   case err of Some e \<Rightarrow> Ret (Inl e, w) | None \<Rightarrow> Ret (Inr supportsDF, w))))"

text \<open>The first part: both buffers, with at most one warning per process.\<close>

definition wrap_buffers :: "os \<Rightarrow> env \<Rightarrow> log_state \<Rightarrow> 'w net_conn \<Rightarrow> 'w \<Rightarrow> proc \<Rightarrow> ('w \<times> proc) go" where
  "wrap_buffers os E lg pc w p =
     go_bind (SetReceiveBuffer os lg pc w) (\<lambda>(err, w).
     go_bind (bufferWarning E lg err p) (\<lambda>p.
     go_bind (SetSendBuffer os lg pc w) (\<lambda>(err, w).
     go_bind (bufferWarning E lg err p) (\<lambda>p.
       Ret (w, p)))))"

text \<open>
  The last part.  The branch for connections that are not OOB-capable asks the nil interface \<open>c\<close>, not
  \<open>pc\<close>, for a remote address: a type assertion on a nil interface fails, so \<open>isConnected\<close> stays false.
\<close>

definition wrap_choose ::
    "os \<Rightarrow> env \<Rightarrow> log_state \<Rightarrow> (nat list \<Rightarrow> nat option) \<Rightarrow> 'w net_conn \<Rightarrow> bool \<Rightarrow> int \<Rightarrow> 'w \<Rightarrow> proc \<Rightarrow>
     ((err + rawConn) \<times> 'w \<times> proc) go" where
  "wrap_choose os E lg pick pc supportsDF writeInterval w p =
     (if \<not> OOBCapablePacketConn pc then
        go_bind (Log lg InfoLevel ''PacketConn is not a net.UDPConn or OOB-capable connection. Disabling optimizations possible on UDP connections.'') (\<lambda>_.
          Ret (Inr (RawBasic \<lparr>bc_PacketConn = pn_ops pc, bc_isConnected = False, bc_supportsDF = supportsDF\<rparr>), w, p))
      else newConn os E lg pick pc supportsDF writeInterval w p)"

definition WrapConn ::
    "os \<Rightarrow> env \<Rightarrow> log_state \<Rightarrow> (nat list \<Rightarrow> nat option) \<Rightarrow> 'w net_conn \<Rightarrow> int \<Rightarrow> 'w \<Rightarrow> proc \<Rightarrow>
     ((err + rawConn) \<times> 'w \<times> proc) go" where
  "WrapConn os E lg pick pc writeInterval w p =
     go_bind (wrap_buffers os E lg pc w p) (\<lambda>(w, p).
     go_bind (wrap_df os E lg pc w) (\<lambda>(df, w).
       case df of
         Inl e \<Rightarrow> Ret (Inl e, w, p)
       | Inr supportsDF \<Rightarrow> wrap_choose os E lg pick pc supportsDF writeInterval w p))"

section \<open>OOBForAddr (sys\_conn\_oob.go)\<close>

text \<open>
  A \<open>netip.Addr\<close> that is neither IPv4 nor IPv6 is \<open>None\<close>, and \<open>Marshal\<close> of the two control messages with
  a given source is a parameter.  An IPv4-mapped IPv6 address is not \<open>Is4\<close>.
\<close>

definition OOBForAddr :: "(byte list \<Rightarrow> byte list) \<Rightarrow> (byte list \<Rightarrow> byte list) \<Rightarrow> byte list option \<Rightarrow> byte list" where
  "OOBForAddr marshal4 marshal6 addr =
     (case addr of
        Some ip \<Rightarrow> if length ip = 4 then marshal4 ip else if length ip = 16 then marshal6 ip else []
      | None \<Rightarrow> [])"

section \<open>WrapConn over such a kernel\<close>

fun rawConn_Capabilities :: "rawConn \<Rightarrow> ConnCapabilities" where
  "rawConn_Capabilities (RawBasic c) = BasicConn_Capabilities c"
| "rawConn_Capabilities (RawOob c) = oobConn_Capabilities (oc_cap c)"

definition oob_of :: "os \<Rightarrow> env \<Rightarrow> 'w oob_os" where
  "oob_of os E = (case os of Linux \<Rightarrow> oob_linux E | Darwin \<Rightarrow> oob_darwin E | _ \<Rightarrow> oob_freebsd E)"

lemma newConn_oob: "os \<noteq> Windows \<Longrightarrow> newConn os E lg pick c df wi w p = oob_newConn (oob_of os E) lg pick c df wi w p"
  by (cases os) (simp_all add: newConn_def oob_of_def)

lemma build_oobConn_cap:
  "build_oobConn oo pick c df wi S w p = (conn, p') \<Longrightarrow>
   oc_cap conn = NewConnCapabilities df (oo_IsGSOEnabled oo S w) (oo_IsECNEnabled oo)"
  by (auto simp: build_oobConn_def Let_def split: if_splits)

lemma oob_newConn_Inr:
  assumes "oob_newConn oo lg pick c df wi w p = Ret (Inr r, w', p')"
  obtains sc S x conn where "pn_SyscallConn c = Some sc" "sc w = Inr S"
    "Control S (recv_options S (needs_packet_info c)) w = (Inr x, w')"
    "build_oobConn oo pick c df wi S w' p = (conn, p')" "r = RawOob conn"
  using assms
  by (auto simp: oob_newConn_def go_bind_Ret_iff split: option.splits sum.splits prod.splits if_splits)

lemma WrapConn_Inr:
  assumes "WrapConn os E lg pick pc wi w p = Ret (Inr r, w', p')"
  obtains df w1 w2 p2 where "wrap_df os E lg pc w1 = Ret (Inr df, w2)"
    "wrap_choose os E lg pick pc df wi w2 p2 = Ret (Inr r, w', p')"
proof -
  obtain w1 p1 where "go_bind (wrap_df os E lg pc w1) (\<lambda>(df, w). case df of
      Inl e \<Rightarrow> Ret (Inl e, w, p1) | Inr df \<Rightarrow> wrap_choose os E lg pick pc df wi w p1) = Ret (Inr r, w', p')"
    using assms unfolding WrapConn_def go_bind_Ret_iff [of "wrap_buffers os E lg pc w p"] by auto
  then obtain d w2 where d: "wrap_df os E lg pc w1 = Ret (d, w2)"
    and c: "(case d of Inl e \<Rightarrow> Ret (Inl e, w2, p1) | Inr df \<Rightarrow> wrap_choose os E lg pick pc df wi w2 p1) = Ret (Inr r, w', p')"
    unfolding go_bind_Ret_iff [of "wrap_df os E lg pc w1"] by auto
  then show ?thesis
    using that [of w1 _ w2 p1] by (cases d) simp_all
qed

text \<open>A connection that reports DF has the option set when it is handed out.\<close>

context sock_options
begin

lemma recv_options_frame:
  assumes "recv_options S needs w = (r, w')" and "opt \<notin> {IP_RECVTOS, IPV6_RECVTCLASS, ipv4PKTINFO, IPV6_RECVPKTINFO}"
  shows "sc_GetsockoptInt S opt w' = sc_GetsockoptInt S opt w"
proof -
  obtain e4 e6 w1 where s: "set_two S IP_RECVTOS IPV6_RECVTCLASS 1 w = ((e4, e6), w1)"
    by (metis surj_pair)
  obtain p4 p6 w2 where t: "set_two S ipv4PKTINFO IPV6_RECVPKTINFO 1 w1 = ((p4, p6), w2)"
    by (metis surj_pair)
  have "sc_GetsockoptInt S opt w1 = sc_GetsockoptInt S opt w"
    using set_two_get(3) [OF s] assms(2) by (simp add: plain_opt_def)
  moreover have "sc_GetsockoptInt S opt w2 = sc_GetsockoptInt S opt w1"
    using set_two_get(3) [OF t] assms(2) by (simp add: plain_opt_def)
  moreover have "w' = (if needs then w2 else w1)"
    using assms(1) by (auto simp: recv_options_def s t)
  ultimately show ?thesis by simp
qed

lemma recv_options_df: "recv_options S needs w = (r, w') \<Longrightarrow> df_set os S w' \<longleftrightarrow> df_set os S w"
  using recv_options_frame [of needs w r w'] by (cases os) (simp_all add: df_set_def)

lemma wrap_df_honest:
  assumes "pn_SyscallConn pc = Some (\<lambda>_. Inr S)" and "wrap_df os E lg pc w = Ret (Inr True, w')"
  shows "df_set os S w'"
  using assms by (auto simp: wrap_df_def go_bind_Ret_iff split: if_splits option.splits dest: setDF_honest)

lemma WrapConn_DF:
  assumes sc: "pn_SyscallConn pc = Some (\<lambda>_. Inr S)" and wrap: "WrapConn os E lg pick pc wi w p = Ret (Inr r, w', p')"
    and cap: "cap_DF (rawConn_Capabilities r)"
  shows "df_set os S w'"
proof -
  obtain df w1 w2 p2 where df: "wrap_df os E lg pc w1 = Ret (Inr df, w2)" and
    r: "wrap_choose os E lg pick pc df wi w2 p2 = Ret (Inr r, w', p')"
    using wrap by (rule WrapConn_Inr)
  have "df \<and> df_set os S w' = df_set os S w2"
  proof (cases "OOBCapablePacketConn pc \<and> os \<noteq> Windows")
    case True
    then have "oob_newConn (oob_of os E) lg pick pc df wi w2 p2 = Ret (Inr r, w', p')"
      using r newConn_oob [of os E lg pick pc df wi w2 p2] by (simp add: wrap_choose_def)
    then obtain x conn where c: "Control S (recv_options S (needs_packet_info pc)) w2 = (Inr x, w')"
      "build_oobConn (oob_of os E) pick pc df wi S w' p2 = (conn, p')" "r = RawOob conn"
      by (rule oob_newConn_Inr) (use sc in auto)
    show ?thesis
      using cap recv_options_df [OF Control_Inr [OF c(1)]] build_oobConn_cap [OF c(2)] c(3)
      by (simp add: oobConn_Capabilities_def)
  next
    case False
    then show ?thesis
      using r cap
      by (auto simp: wrap_choose_def newConn_def windows_newConn_def BasicConn_Capabilities_def go_bind_Ret_iff split: if_splits)
  qed
  then show ?thesis
    using wrap_df_honest [OF sc, of os E lg w1 w2] df by simp
qed

end

section \<open>WrapConn on Linux\<close>

text \<open>
  A UDP socket whose descriptor is open and whose options succeed or fail by \<open>oerr\<close>, whatever the state
  of the kernel: the hypotheses under which the outcome of \<open>WrapConn\<close> can be told in advance.
\<close>

definition udp_sock :: "'w net_conn \<Rightarrow> 'w sysconn \<Rightarrow> (sockopt \<Rightarrow> err option) \<Rightarrow> bool" where
  "udp_sock pc S oerr \<longleftrightarrow>
     OOBCapablePacketConn pc \<and> pn_SyscallConn pc = Some (\<lambda>_. Inr S)
     \<and> Option.bind (pn_LocalAddr pc) addr_UDP \<noteq> None
     \<and> (\<forall>w. sc_Control S w = None)
     \<and> (\<forall>opt v w. plain_opt opt \<longrightarrow> fst (sc_SetsockoptInt S opt v w) = oerr opt)"

abbreviation either :: "(sockopt \<Rightarrow> err option) \<Rightarrow> sockopt \<Rightarrow> sockopt \<Rightarrow> bool" where
  "either oerr o4 o6 \<equiv> oerr o4 = None \<or> oerr o6 = None"

lemma plain_opts:
  "plain_opt IP_RECVTOS" "plain_opt IPV6_RECVTCLASS" "plain_opt ipv4PKTINFO" "plain_opt IPV6_RECVPKTINFO"
  "plain_opt IP_MTU_DISCOVER" "plain_opt IPV6_MTU_DISCOVER"
  by (simp_all add: plain_opt_def)

lemma set_two_errs:
  "udp_sock pc S oerr \<Longrightarrow> plain_opt o4 \<Longrightarrow> plain_opt o6 \<Longrightarrow> \<exists>w'. set_two S o4 o6 v w = ((oerr o4, oerr o6), w')"
proof -
  assume u: "udp_sock pc S oerr" "plain_opt o4" "plain_opt o6"
  obtain e4 w1 where s4: "sc_SetsockoptInt S o4 v w = (e4, w1)" by fastforce
  obtain e6 w2 where s6: "sc_SetsockoptInt S o6 v w1 = (e6, w2)" by fastforce
  have "fst (sc_SetsockoptInt S o4 v w) = oerr o4" "fst (sc_SetsockoptInt S o6 v w1) = oerr o6"
    using u unfolding udp_sock_def by blast+
  then show ?thesis
    by (simp add: set_two_def s4 s6)
qed

lemma setBuffer_returns: "quiet lg \<Longrightarrow> \<exists>x. setBuffer lg what setb inspect force S w = Ret x"
  using setBuffer_result [of lg what setb inspect force S w] by auto

lemma SetReceiveBuffer_returns: "quiet lg \<Longrightarrow> \<exists>x. SetReceiveBuffer os lg c w = Ret x"
  by (auto simp: SetReceiveBuffer_def simp del: split_paired_Ex intro: setBuffer_returns split: option.split)

lemma SetSendBuffer_returns: "quiet lg \<Longrightarrow> \<exists>x. SetSendBuffer os lg c w = Ret x"
  by (auto simp: SetSendBuffer_def simp del: split_paired_Ex intro: setBuffer_returns split: option.split)

lemma bufferWarning_returns: "quiet lg \<Longrightarrow> \<exists>b. bufferWarning E lg e p = Ret (p\<lparr>pr_warned := b\<rparr>)"
proof -
  assume "quiet lg"
  then have "bufferWarning E lg e p = Ret p \<or> bufferWarning E lg e p = Ret (p\<lparr>pr_warned := True\<rparr>)"
    by (simp add: bufferWarning_def split: option.split)
  moreover have "p = p\<lparr>pr_warned := pr_warned p\<rparr>" by simp
  ultimately show ?thesis by metis
qed

lemma wrap_buffers_returns:
  assumes "quiet lg"
  obtains w' b where "wrap_buffers os E lg pc w p = Ret (w', p\<lparr>pr_warned := b\<rparr>)"
proof -
  obtain r w1 where 1: "SetReceiveBuffer os lg pc w = Ret (r, w1)"
    using SetReceiveBuffer_returns [OF assms, of os pc w] by auto
  obtain b where 2: "bufferWarning E lg r p = Ret (p\<lparr>pr_warned := b\<rparr>)"
    using bufferWarning_returns [OF assms] by blast
  obtain r' w2 where 3: "SetSendBuffer os lg pc w1 = Ret (r', w2)"
    using SetSendBuffer_returns [OF assms, of os pc w1] by auto
  obtain b' where 4: "bufferWarning E lg r' (p\<lparr>pr_warned := b\<rparr>) = Ret (p\<lparr>pr_warned := b\<rparr>\<lparr>pr_warned := b'\<rparr>)"
    using bufferWarning_returns [OF assms] by blast
  show ?thesis
    by (rule that [of w2 b']) (simp add: wrap_buffers_def 1 2 3 4)
qed

lemma wrap_df_linux:
  assumes u: "udp_sock pc S oerr" and q: "quiet lg"
  shows "\<exists>w'. wrap_df Linux E lg pc w =
    Ret (if either oerr IP_MTU_DISCOVER IPV6_MTU_DISCOVER then Inr True
         else Inl (ErrMsg ''setting DF failed for both IPv4 and IPv6''), w')"
proof -
  obtain w' where s: "set_two S IP_MTU_DISCOVER IPV6_MTU_DISCOVER IP_PMTUDISC_PROBE w
      = ((oerr IP_MTU_DISCOVER, oerr IPV6_MTU_DISCOVER), w')"
    using set_two_errs [OF u plain_opts(5,6)] by blast
  have "linux_setDF lg S w = df_result lg (oerr IP_MTU_DISCOVER) (oerr IPV6_MTU_DISCOVER) w'"
    using u by (simp add: linux_setDF_def Control_def udp_sock_def s)
  then show ?thesis
    using u q by (intro exI [of _ w']) (auto simp: wrap_df_def setDF_def df_result_def udp_sock_def split: option.splits)
qed

definition recv_ok :: "(sockopt \<Rightarrow> err option) \<Rightarrow> bool \<Rightarrow> bool" where
  "recv_ok oerr needs \<longleftrightarrow> either oerr IP_RECVTOS IPV6_RECVTCLASS \<and> (needs \<longrightarrow> either oerr ipv4PKTINFO IPV6_RECVPKTINFO)"

lemma oob_newConn_result:
  assumes u: "udp_sock pc S oerr" and q: "quiet lg"
  shows "\<exists>w'. if recv_ok oerr (needs_packet_info pc)
    then oob_newConn oo lg pick pc df wi w p = Ret (Inr (RawOob (fst (build_oobConn oo pick pc df wi S w' p))), w',
      snd (build_oobConn oo pick pc df wi S w' p))
    else \<exists>e. oob_newConn oo lg pick pc df wi w p = Ret (Inl e, w', p)"
proof -
  obtain w1 where s: "set_two S IP_RECVTOS IPV6_RECVTCLASS 1 w = ((oerr IP_RECVTOS, oerr IPV6_RECVTCLASS), w1)"
    using set_two_errs [OF u plain_opts(1,2)] by blast
  obtain w2 where t: "set_two S ipv4PKTINFO IPV6_RECVPKTINFO 1 w1 = ((oerr ipv4PKTINFO, oerr IPV6_RECVPKTINFO), w2)"
    using set_two_errs [OF u plain_opts(3,4)] by blast
  show ?thesis
  proof (cases "needs_packet_info pc")
    case True
    then show ?thesis
      using u q by (intro exI [of _ w2])
        (auto simp: oob_newConn_def udp_sock_def Control_def recv_options_def s t recv_ok_def log_ecn_def log_pktinfo_def split_beta split: option.splits)
  next
    case False
    then show ?thesis
      using u q by (intro exI [of _ w1])
        (auto simp: oob_newConn_def udp_sock_def Control_def recv_options_def s t recv_ok_def log_ecn_def split_beta split: option.splits)
  qed
qed

text \<open>The reader of a connection, with the heap and the pools of the process.\<close>

definition conn_reader :: "oobConn \<Rightarrow> proc \<Rightarrow> rstate" where
  "conn_reader c p = \<lparr>rd = oc_reader c, hp = pr_heap p, bufferPool = pr_bufferPool p, oobBufferPool = pr_oobBufferPool p\<rparr>"

lemma conn_reader_build:
  assumes "wi \<le> 0" and "build_oobConn oo pick pc df wi S w p = (c, p')"
  shows "conn_reader c p' = newBatchReader (oo_platform oo) pick (pr_bufferPool p) (pr_oobBufferPool p) (pr_heap p)"
  using assms by (auto simp: build_oobConn_def conn_reader_def Let_def)

text \<open>All that the set-up needs of a Linux socket: one IP version for each option.\<close>

definition linux_ok :: "(sockopt \<Rightarrow> err option) \<Rightarrow> 'w net_conn \<Rightarrow> bool" where
  "linux_ok oerr pc \<longleftrightarrow> either oerr IP_MTU_DISCOVER IPV6_MTU_DISCOVER \<and> recv_ok oerr (needs_packet_info pc)"

lemma WrapConn_linux_ok:
  assumes u: "udp_sock pc S oerr" and q: "quiet lg" and ok: "linux_ok oerr pc"
  obtains c w' p' b where "WrapConn Linux E lg pick pc wi w p = Ret (Inr (RawOob c), w', p')"
    and "build_oobConn (oob_linux E) pick pc True wi S w' (p\<lparr>pr_warned := b\<rparr>) = (c, p')"
proof -
  obtain w1 b where b: "wrap_buffers Linux E lg pc w p = Ret (w1, p\<lparr>pr_warned := b\<rparr>)"
    by (rule wrap_buffers_returns [OF q])
  obtain w2 where d: "wrap_df Linux E lg pc w1 = Ret (Inr True, w2)"
    using wrap_df_linux [OF u q, of E w1] ok by (auto simp: linux_ok_def)
  obtain w3 where n: "oob_newConn (oob_linux E) lg pick pc True wi w2 (p\<lparr>pr_warned := b\<rparr>)
      = Ret (Inr (RawOob (fst (build_oobConn (oob_linux E) pick pc True wi S w3 (p\<lparr>pr_warned := b\<rparr>)))), w3,
        snd (build_oobConn (oob_linux E) pick pc True wi S w3 (p\<lparr>pr_warned := b\<rparr>)))"
    using oob_newConn_result [OF u q, of "oob_linux E" pick True wi w2 "p\<lparr>pr_warned := b\<rparr>"] ok
    by (simp only: linux_ok_def if_True) blast
  have "WrapConn Linux E lg pick pc wi w p
      = Ret (Inr (RawOob (fst (build_oobConn (oob_linux E) pick pc True wi S w3 (p\<lparr>pr_warned := b\<rparr>)))), w3,
        snd (build_oobConn (oob_linux E) pick pc True wi S w3 (p\<lparr>pr_warned := b\<rparr>)))"
    using u by (simp add: WrapConn_def b d wrap_choose_def newConn_def n udp_sock_def)
  then show ?thesis
    by (rule that) simp
qed

lemma WrapConn_linux_fails:
  assumes u: "udp_sock pc S oerr" and q: "quiet lg" and bad: "\<not> linux_ok oerr pc"
  shows "\<exists>e w' p'. WrapConn Linux E lg pick pc wi w p = Ret (Inl e, w', p')"
proof -
  obtain w1 b where b: "wrap_buffers Linux E lg pc w p = Ret (w1, p\<lparr>pr_warned := b\<rparr>)"
    by (rule wrap_buffers_returns [OF q])
  show ?thesis
  proof (cases "either oerr IP_MTU_DISCOVER IPV6_MTU_DISCOVER")
    case True
    obtain w2 where d: "wrap_df Linux E lg pc w1 = Ret (Inr True, w2)"
      using wrap_df_linux [OF u q, of E w1] True by auto
    have "\<exists>e w'. oob_newConn (oob_linux E) lg pick pc True wi w2 (p\<lparr>pr_warned := b\<rparr>) = Ret (Inl e, w', p\<lparr>pr_warned := b\<rparr>)"
      using oob_newConn_result [OF u q, of "oob_linux E" pick True wi w2 "p\<lparr>pr_warned := b\<rparr>"] bad True
      by (simp only: linux_ok_def if_False simp_thms) blast
    then show ?thesis
      using u by (auto simp: WrapConn_def b d wrap_choose_def newConn_def udp_sock_def)
  next
    case False
    have "\<exists>e w2. wrap_df Linux E lg pc w1 = Ret (Inl e, w2)"
      using wrap_df_linux [OF u q, of E w1] False by auto
    then show ?thesis
      by (auto simp: WrapConn_def b)
  qed
qed

section \<open>Properties\<close>

text \<open>
  C15: On Linux \<open>WrapConn\<close> of an open UDP socket always returns, and it returns a connection exactly when
  one IP version accepts the DF option, one the ECN option and, if the socket is bound to the unspecified
  address, one the packet-info option; a failure to enlarge the buffers is no error.  The connection is
  an OOB connection that reports DF, and GSO and ECN exactly as the kernel and the environment allow.
\<close>

theorem wrap_conn_linux:
  assumes "udp_sock pc S oerr" and "quiet lg"
  shows "\<exists>r w' p'. WrapConn Linux E lg pick pc wi w p = Ret (r, w', p')
    \<and> ((\<exists>c. r = Inr c) \<longleftrightarrow> linux_ok oerr pc)
    \<and> (\<forall>c. r = Inr c \<longrightarrow> (\<exists>oc. c = RawOob oc \<and> cap_DF (oc_cap oc)
         \<and> cap_GSO (oc_cap oc) = linux_IsGSOEnabled E S w'
         \<and> cap_ECN (oc_cap oc) = linux_IsECNEnabled (e_getenv E) (kernelVersionMajor (e_uname E))))"
proof (cases "linux_ok oerr pc")
  case True
  then obtain c w' p' b where w: "WrapConn Linux E lg pick pc wi w p = Ret (Inr (RawOob c), w', p')"
    and "build_oobConn (oob_linux E) pick pc True wi S w' (p\<lparr>pr_warned := b\<rparr>) = (c, p')"
    by (rule WrapConn_linux_ok [OF assms])
  from build_oobConn_cap [OF this(2)] show ?thesis
    using True by (simp add: w oob_linux_def)
next
  case False
  then show ?thesis
    using WrapConn_linux_fails [OF assms, of E pick wi w p] by auto
qed

lemma mem_udp_sock:
  "udp_sock (mem_udp (mem_kernel l b m)) (mem_kernel l b m) (\<lambda>opt. if opt \<in> set m then Some (Errno ''ENOPROTOOPT'') else None)"
  by (auto simp: udp_sock_def OOBCapablePacketConn_def mem_udp_def mem_kernel_def plain_opt_def split: sockopt.split)

definition quiet_env :: env where
  "quiet_env = \<lparr>e_getenv = (\<lambda>_. ''''), e_uname = Inr (ascii ''6.12'' @ 45 # ascii ''arch1''), e_strerror = (\<lambda>n. n)\<rparr>"

abbreviation no_log :: log_state where "no_log \<equiv> \<lparr>defaultLogger = None\<rparr>"

abbreviation proc0 :: proc where
  "proc0 \<equiv> \<lparr>pr_warned = False, pr_bufferPool = [], pr_oobBufferPool = [], pr_heap = \<lparr>arrays = [], bbuf = []\<rparr>\<rparr>"

lemma no_log_quiet: "quiet no_log"
  by (simp add: quiet_def)

theorem wrap_conn_linux_witness:
  "(\<exists>oc w' p'. WrapConn Linux quiet_env no_log first_fit (mem_udp (mem_kernel 212992 False [IP_MTU_DISCOVER])) 0 (\<lambda>_. 0) proc0
      = Ret (Inr (RawOob oc), w', p') \<and> cap_DF (oc_cap oc))
   \<and> (\<exists>e w' p'. WrapConn Linux quiet_env no_log first_fit (mem_udp (mem_kernel 212992 False [IP_RECVTOS, IPV6_RECVTCLASS])) 0 (\<lambda>_. 0) proc0
      = Ret (Inl e, w', p'))"
proof
  note w = wrap_conn_linux [OF mem_udp_sock no_log_quiet]
  note [simp] = linux_ok_def recv_ok_def
  show "\<exists>oc w' p'. WrapConn Linux quiet_env no_log first_fit (mem_udp (mem_kernel 212992 False [IP_MTU_DISCOVER])) 0 (\<lambda>_. 0) proc0
      = Ret (Inr (RawOob oc), w', p') \<and> cap_DF (oc_cap oc)"
    using w [of quiet_env first_fit 212992 False "[IP_MTU_DISCOVER]" 0 "\<lambda>_. 0" proc0] by fastforce
  obtain r w' p' where r: "WrapConn Linux quiet_env no_log first_fit (mem_udp (mem_kernel 212992 False [IP_RECVTOS, IPV6_RECVTCLASS])) 0 (\<lambda>_. 0) proc0
      = Ret (r, w', p')" "\<nexists>c. r = Inr c"
    using w [of quiet_env first_fit 212992 False "[IP_RECVTOS, IPV6_RECVTCLASS]" 0 "\<lambda>_. 0" proc0] by fastforce
  then show "\<exists>e w' p'. WrapConn Linux quiet_env no_log first_fit (mem_udp (mem_kernel 212992 False [IP_RECVTOS, IPV6_RECVTCLASS])) 0 (\<lambda>_. 0) proc0
      = Ret (Inl e, w', p')"
    by (cases r) auto
qed

text \<open>
  C16: A raw connection never claims DF wrongly: on every system, when the connection that \<open>WrapConn\<close>
  returns reports DF, the kernel holds one of the options by which that system is asked not to fragment,
  also after \<open>newConn\<close> set its own options.
\<close>

theorem wrap_conn_df_honest:
  assumes "sock_options S" and "pn_SyscallConn pc = Some (\<lambda>_. Inr S)"
    and "WrapConn os E lg pick pc wi w p = Ret (Inr r, w', p')" and "cap_DF (rawConn_Capabilities r)"
  shows "\<exists>(opt, v) \<in> set (df_settings os). sc_GetsockoptInt S opt w' = (v, None)"
  using sock_options.WrapConn_DF [OF assms] by (simp add: df_set_def)

theorem wrap_conn_df_honest_witness:
  "\<exists>r w' p'. WrapConn Linux quiet_env no_log first_fit (mem_udp (mem_kernel 212992 False [IP_MTU_DISCOVER])) 0 (\<lambda>_. 0) proc0 = Ret (Inr r, w', p')
    \<and> (w' IP_MTU_DISCOVER = 3 \<or> w' IPV6_MTU_DISCOVER = 3)"
proof -
  let ?S = "mem_kernel 212992 False [IP_MTU_DISCOVER]"
  have "linux_ok (\<lambda>opt. if opt \<in> set [IP_MTU_DISCOVER] then Some (Errno ''ENOPROTOOPT'') else None) (mem_udp ?S)"
    by (simp add: linux_ok_def recv_ok_def)
  then obtain c w' p' b where w: "WrapConn Linux quiet_env no_log first_fit (mem_udp ?S) 0 (\<lambda>_. 0) proc0 = Ret (Inr (RawOob c), w', p')"
    and b: "build_oobConn (oob_linux quiet_env) first_fit (mem_udp ?S) True 0 ?S w' (proc0\<lparr>pr_warned := b\<rparr>) = (c, p')"
    by (rule WrapConn_linux_ok [OF mem_udp_sock no_log_quiet])
  have "pn_SyscallConn (mem_udp ?S) = Some (\<lambda>_. Inr ?S)"
    by (simp add: mem_udp_def)
  moreover have "cap_DF (rawConn_Capabilities (RawOob c))"
    by (simp add: oobConn_Capabilities_def build_oobConn_cap [OF b])
  ultimately have "\<exists>(opt, v) \<in> set (df_settings Linux). sc_GetsockoptInt ?S opt w' = (v, None)"
    by (rule wrap_conn_df_honest [OF memk.sock_options_axioms _ w])
  then show ?thesis
    using w by (auto simp: mem_kernel_def IP_PMTUDISC_PROBE_def)
qed

text \<open>
  C17: From \<open>WrapConn\<close> to the data: on an open UDP socket of Linux that accepts the options, without batch
  writing, the reader of the connection returns the datagrams of all batches whole and in order.
\<close>

theorem wrap_conn_stream:
  assumes "udp_sock pc S oerr" and "quiet lg" and "linux_ok oerr pc" and "wi \<le> 0"
    and "buffer_pool pick" and "alloc_inv [] (pr_bufferPool p) (pr_oobBufferPool p) (pr_heap p)"
    and "list_all2 (\<lambda>rb ds. batch_socket rb \<and> yields linux rb ds \<and> ds \<noteq> [] \<and> (\<forall>d \<in> set ds. small d)) rbs dss"
  shows "\<exists>c w' p' s. WrapConn Linux E lg pick pc wi w p = Ret (Inr (RawOob c), w', p')
    \<and> read_n linux pick (length (concat dss)) rbs (conn_reader c p') = Ret (concat dss, s)"
proof -
  obtain c w' p' b where w: "WrapConn Linux E lg pick pc wi w p = Ret (Inr (RawOob c), w', p')"
    and b: "build_oobConn (oob_linux E) pick pc True wi S w' (p\<lparr>pr_warned := b\<rparr>) = (c, p')"
    by (rule WrapConn_linux_ok [OF assms(1-3)])
  have "conn_reader c p' = newBatchReader linux pick (pr_bufferPool p) (pr_oobBufferPool p) (pr_heap p)"
    using conn_reader_build [OF assms(4) b] by (simp add: oob_linux_def)
  then show ?thesis
    using w new_reader_stream [OF assms(5,6) platforms_ok(1) assms(7)] by auto
qed

theorem wrap_conn_stream_witness:
  "\<exists>c w' p' s. WrapConn Linux quiet_env no_log first_fit (mem_udp (mem_kernel 212992 False [])) 0 (\<lambda>_. 0) proc0
      = Ret (Inr (RawOob c), w', p')
    \<and> read_n linux first_fit 2 [recv_batch [([1], [], None), ([2, 3], [9], None)]] (conn_reader c p')
      = Ret ([([1], [], None), ([2, 3], [9], None)], s)"
proof -
  let ?ds = "[([1], [], None), ([2, 3], [9], None)] :: dgram list"
  have ok: "list_all2 (\<lambda>rb ds. batch_socket rb \<and> yields linux rb ds \<and> ds \<noteq> [] \<and> (\<forall>d \<in> set ds. small d)) [recv_batch ?ds] [?ds]"
    using held.batch_socket_axioms
    by (auto intro!: recv_batch_yields simp: small_def linux_def MaxPacketBufferSize_def oobBufferSize_def)
  have a: "alloc_inv [] (pr_bufferPool proc0) (pr_oobBufferPool proc0) (pr_heap proc0)"
    by (simp add: alloc_inv_def)
  have l: "linux_ok (\<lambda>opt. if opt \<in> set [] then Some (Errno ''ENOPROTOOPT'') else None) (mem_udp (mem_kernel 212992 False []))"
    by (simp add: linux_ok_def recv_ok_def)
  from wrap_conn_stream [OF mem_udp_sock no_log_quiet l order_refl ffit.buffer_pool_axioms a ok] show ?thesis
    by (simp add: numeral_2_eq_2)
qed


definition mem_pipe :: "net_addr \<Rightarrow> (sockopt \<Rightarrow> int) net_conn" where
  "mem_pipe a =
     \<lparr>pn_SetReadBuffer = None, pn_SetWriteBuffer = None, pn_SyscallConn = None, pn_MsgUDP = False,
      pn_ReadBatch = False, pn_WriteBatch = False, pn_LocalAddr = None,
      pn_ops = \<lparr>pc_ReadFrom = (\<lambda>b. ((0, None, Some EOF), b)), pc_WriteTo = (\<lambda>b a. (0, Some EOF)),
        pc_connected = Some (\<lambda>b. ((0, Some EOF), b), \<lambda>b. (int (length b), None)), pc_RemoteAddr = Some (Some a)\<rparr>\<rparr>"


end
