(* ===== verification/Endpoints.thy ===== *)
theory Endpoints
  imports Wrap_Conn
begin

text \<open>
  The entry points of the package: the connection for a single remote (\<open>connected.go\<close>), dialing
  (\<open>dial.go\<close>) and listening (\<open>listener.go\<close>).
\<close>

section \<open>SingleAddrConn (connected.go)\<close>

text \<open>
  The raw connection it is built on is an interface: a record of the methods the code calls, on a state
  of any type.
\<close>

record 'r raw_if =
  ri_ReadPacket :: "byte list \<Rightarrow> byte list \<Rightarrow> 'r \<Rightarrow> (raw_read \<times> 'r) go"
  ri_WritePacket :: "byte list \<Rightarrow> byte list \<Rightarrow> 16 word \<Rightarrow> ECN \<Rightarrow> net_addr option \<Rightarrow> 'r \<Rightarrow> ((int \<times> int \<times> err option) \<times> 'r) go"
  ri_LocalAddr :: "'r \<Rightarrow> net_addr option"
  ri_RemoteAddr :: "'r \<Rightarrow> net_addr option"
  ri_SetReadDeadline :: "time \<Rightarrow> 'r \<Rightarrow> err option \<times> 'r"
  ri_Close :: "'r \<Rightarrow> err option \<times> 'r"
  ri_Capabilities :: "'r \<Rightarrow> ConnCapabilities"

record 'r SingleAddrConn =
  sac_base :: 'r
  sac_addr :: "net_addr option"

definition sac_Close :: "'r raw_if \<Rightarrow> 'r SingleAddrConn \<Rightarrow> err option \<times> 'r SingleAddrConn" where
  "sac_Close R c = (case ri_Close R (sac_base c) of (e, r) \<Rightarrow> (e, c\<lparr>sac_base := r\<rparr>))"

text \<open>
  \<open>Read\<close> returns its four results and the contents of the two slices.  A packet of another remote is
  answered with four zero values, the first of which as a codepoint is \<open>ECNUnsupported\<close>.
\<close>

record sac_read =
  sr_n :: int
  sr_oobN :: int
  sr_ecn :: ECN
  sr_err :: "err option"
  sr_p :: "byte list"
  sr_oob :: "byte list"

definition sac_Read ::
    "'r raw_if \<Rightarrow> byte list \<Rightarrow> byte list \<Rightarrow> 'r SingleAddrConn \<Rightarrow> (sac_read \<times> 'r SingleAddrConn) go" where
  "sac_Read R p oob c =
     go_bind (ri_ReadPacket R p oob (sac_base c)) (\<lambda>(r, b).
       let c = c\<lparr>sac_base := b\<rparr> in
       case (rr_addr r, sac_addr c) of
         (Some addr, Some own) \<Rightarrow>
           if addr_String addr \<noteq> addr_String own
           then Ret (\<lparr>sr_n = 0, sr_oobN = 0, sr_ecn = 0, sr_err = None, sr_p = rr_b r, sr_oob = rr_oob r\<rparr>, c)
           else Ret (\<lparr>sr_n = rr_n r, sr_oobN = rr_oobN r, sr_ecn = rr_ecn r, sr_err = rr_err r, sr_p = rr_b r, sr_oob = rr_oob r\<rparr>, c)
       | _ \<Rightarrow> Ret (\<lparr>sr_n = rr_n r, sr_oobN = rr_oobN r, sr_ecn = rr_ecn r, sr_err = rr_err r, sr_p = rr_b r, sr_oob = rr_oob r\<rparr>, c))"

definition sac_Write ::
    "'r raw_if \<Rightarrow> byte list \<Rightarrow> byte list \<Rightarrow> int \<Rightarrow> ECN \<Rightarrow> 'r SingleAddrConn \<Rightarrow> ((int \<times> int \<times> err option) \<times> 'r SingleAddrConn) go" where
  "sac_Write R p oob gsoSize ecn c =
     go_bind (ri_WritePacket R p oob (word_of_int gsoSize) ecn (sac_addr c) (sac_base c)) (\<lambda>(res, b).
       Ret (res, c\<lparr>sac_base := b\<rparr>))"

definition sac_LocalAddr :: "'r raw_if \<Rightarrow> 'r SingleAddrConn \<Rightarrow> net_addr option" where
  "sac_LocalAddr R c = ri_LocalAddr R (sac_base c)"

definition sac_RemoteAddr :: "'r raw_if \<Rightarrow> 'r SingleAddrConn \<Rightarrow> net_addr option" where
  "sac_RemoteAddr R c = (case ri_RemoteAddr R (sac_base c) of Some a \<Rightarrow> Some a | None \<Rightarrow> sac_addr c)"

definition sac_SetReadDeadline :: "'r raw_if \<Rightarrow> time \<Rightarrow> 'r SingleAddrConn \<Rightarrow> err option \<times> 'r SingleAddrConn" where
  "sac_SetReadDeadline R t c = (case ri_SetReadDeadline R t (sac_base c) of (e, r) \<Rightarrow> (e, c\<lparr>sac_base := r\<rparr>))"

definition sac_SetDeadline :: "'r raw_if \<Rightarrow> time \<Rightarrow> 'r SingleAddrConn \<Rightarrow> err option \<times> 'r SingleAddrConn" where
  "sac_SetDeadline R t c = sac_SetReadDeadline R t c"

definition sac_SetWriteDeadline :: "time \<Rightarrow> 'r SingleAddrConn \<Rightarrow> err option \<times> 'r SingleAddrConn" where
  "sac_SetWriteDeadline t c = (Some ErrUnsupported, c)"

definition sac_Capabilities :: "'r raw_if \<Rightarrow> 'r SingleAddrConn \<Rightarrow> ConnCapabilities" where
  "sac_Capabilities R c = ri_Capabilities R (sac_base c)"

section \<open>Dialing (dial.go)\<close>

record ConnConfig =
  ReadBufferSize :: int
  WriteBufferSize :: int
  WriteInterval :: int

definition zero_config :: ConnConfig where
  "zero_config = \<lparr>ReadBufferSize = 0, WriteBufferSize = 0, WriteInterval = 0\<rparr>"

text \<open>
  The buffer sizes of a configuration, applied through \<open>SetReadBuffer\<close> and \<open>SetWriteBuffer\<close>, whose errors
  are ignored.  A raw connection that is not a \<open>bufferedConn\<close> is \<open>None\<close>.
\<close>

type_synonym 'w buffered = "((int \<Rightarrow> 'w \<Rightarrow> err option \<times> 'w) \<times> (int \<Rightarrow> 'w \<Rightarrow> err option \<times> 'w)) option"

definition apply_buffers :: "'w buffered \<Rightarrow> ConnConfig \<Rightarrow> 'w \<Rightarrow> 'w" where
  "apply_buffers bConn dc w =
     (case bConn of
        None \<Rightarrow> w
      | Some (setRead, setWrite) \<Rightarrow>
          (let w = (if 0 < ReadBufferSize dc then snd (setRead (ReadBufferSize dc) w) else w)
           in if 0 < WriteBufferSize dc then snd (setWrite (WriteBufferSize dc) w) else w))"

text \<open>
  The last argument of \<open>wrapConn\<close> is the capacity of a channel: \<open>make\<close> panics when it is negative.
\<close>

definition make_backlog :: "int \<Rightarrow> nat go" where
  "make_backlog n = (if n < 0 then Panic (PanicMsg ''makechan: size out of range'') else Ret (nat n))"

definition wrapDialed ::
    "('q, 'd) lib \<Rightarrow> 'r raw_if \<Rightarrow> 'r \<Rightarrow> 'w buffered \<Rightarrow> ConnConfig option \<Rightarrow> 'w \<Rightarrow> ('q, 'd) supConn \<times> 'w" where
  "wrapDialed L R rawConn bConn dc w =
     (let dc = (case dc of None \<Rightarrow> zero_config | Some dc \<Rightarrow> dc);
          w = apply_buffers bConn dc w
      in (wrapConn L (ri_Capabilities R rawConn) (ri_LocalAddr R rawConn) (ri_RemoteAddr R rawConn) False None 1, w))"

definition WrapConnectedConn :: "'r \<Rightarrow> 'w buffered \<Rightarrow> ConnConfig option \<Rightarrow> 'w \<Rightarrow> 'r SingleAddrConn \<times> 'w" where
  "WrapConnectedConn rawConn bConn dc w =
     (let dc = (case dc of None \<Rightarrow> zero_config | Some dc \<Rightarrow> dc);
          w = apply_buffers bConn dc w
      in (\<lparr>sac_base = rawConn, sac_addr = None\<rparr>, w))"

definition WrapUnconnectedConn :: "'r \<Rightarrow> net_addr option \<Rightarrow> 'w buffered \<Rightarrow> ConnConfig option \<Rightarrow> 'w \<Rightarrow> 'r SingleAddrConn \<times> 'w" where
  "WrapUnconnectedConn rawConn rAddr bConn dc w =
     (let dc = (case dc of None \<Rightarrow> zero_config | Some dc \<Rightarrow> dc);
          w = apply_buffers bConn dc w
      in (\<lparr>sac_base = rawConn, sac_addr = rAddr\<rparr>, w))"

text \<open>
  \<open>Dial\<close>.  \<open>net.DialUDP\<close> is a parameter; the \<open>*net.UDPConn\<close> it returns has both buffer methods.  Neither
  of the raw connections that \<open>WrapConn\<close> returns has a \<open>SetWriteBuffer\<close>, so that for them the assertion
  in \<open>WrapConnectedConn\<close> fails.
\<close>

definition udp_buffered :: "'w net_conn \<Rightarrow> 'w buffered" where
  "udp_buffered conn =
     (case (pn_SetReadBuffer conn, pn_SetWriteBuffer conn) of (Some r, Some s) \<Rightarrow> Some (r, s) | _ \<Rightarrow> None)"

type_synonym 'w dial_udp = "string \<Rightarrow> net_addr option \<Rightarrow> net_addr \<Rightarrow> 'w \<Rightarrow> (err + 'w net_conn) \<times> 'w"

definition ConnConfig_Dial ::
    "os \<Rightarrow> env \<Rightarrow> log_state \<Rightarrow> (nat list \<Rightarrow> nat option) \<Rightarrow> 'w dial_udp \<Rightarrow> ConnConfig \<Rightarrow>
     string \<Rightarrow> net_addr option \<Rightarrow> net_addr option \<Rightarrow> 'w \<Rightarrow> proc \<Rightarrow> ((err + rawConn SingleAddrConn) \<times> 'w \<times> proc) go" where
  "ConnConfig_Dial os E lg pick dialUDP dc network laddr raddr w p =
     (if network \<notin> set [''udp'', ''udp4'', ''udp6''] then Ret (Inl ErrUnknownNetwork, w, p)
      else case raddr of
        None \<Rightarrow> Ret (Inl ErrMissingAddr, w, p)
      | Some raddr \<Rightarrow>
          (case dialUDP network laddr raddr w of
             (Inl e, w) \<Rightarrow> Ret (Inl e, w, p)
           | (Inr conn, w) \<Rightarrow>
               (let w = apply_buffers (udp_buffered conn) dc w in
                go_bind (WrapConn os E lg pick conn (WriteInterval dc) w p) (\<lambda>(r, w, p).
                  case r of
                    Inl e \<Rightarrow> Ret (Inl e, w, p)
                  | Inr rawConn \<Rightarrow>
                      (case WrapConnectedConn rawConn None (Some dc) w of (c, w) \<Rightarrow> Ret (Inr c, w, p))))))"

definition Dial ::
    "os \<Rightarrow> env \<Rightarrow> log_state \<Rightarrow> (nat list \<Rightarrow> nat option) \<Rightarrow> 'w dial_udp \<Rightarrow>
     string \<Rightarrow> net_addr option \<Rightarrow> net_addr option \<Rightarrow> 'w \<Rightarrow> proc \<Rightarrow> ((err + rawConn SingleAddrConn) \<times> 'w \<times> proc) go" where
  "Dial os E lg pick dialUDP network laddr raddr w p =
     ConnConfig_Dial os E lg pick dialUDP zero_config network laddr raddr w p"

section \<open>Listening (listener.go)\<close>

record ListenConfig =
  Backlog :: int
  AcceptFilter :: "(byte list \<Rightarrow> bool) option"
  lc_ConnConfig :: ConnConfig

definition zero_listen_config :: ListenConfig where
  "zero_listen_config = \<lparr>Backlog = 0, AcceptFilter = None, lc_ConnConfig = zero_config\<rparr>"

text \<open>
  \<open>Listen\<close> writes the default backlog into the configuration it is called on, so the configuration is part
  of the result.  \<open>net.ListenUDP\<close> is a parameter.
\<close>

type_synonym 'w listen_udp = "string \<Rightarrow> net_addr option \<Rightarrow> 'w \<Rightarrow> (err + 'w net_conn) \<times> 'w"

definition raw_RemoteAddr :: "'w net_conn \<Rightarrow> net_addr option" where
  "raw_RemoteAddr conn = (case pc_RemoteAddr (pn_ops conn) of Some ra \<Rightarrow> ra | None \<Rightarrow> None)"

definition ListenConfig_Listen ::
    "os \<Rightarrow> env \<Rightarrow> log_state \<Rightarrow> (nat list \<Rightarrow> nat option) \<Rightarrow> 'w listen_udp \<Rightarrow> ('q, 'd) lib \<Rightarrow> ListenConfig \<Rightarrow>
     string \<Rightarrow> net_addr option \<Rightarrow> 'w \<Rightarrow> proc \<Rightarrow> ((err + ('q, 'd) supConn \<times> rawConn) \<times> ListenConfig \<times> 'w \<times> proc) go" where
  "ListenConfig_Listen os E lg pick listenUDP L lc network laddr w p =
     (let lc = (if Backlog lc = 0 then lc\<lparr>Backlog := int defaultListenBacklog\<rparr> else lc) in
      case listenUDP network laddr w of
        (Inl e, w) \<Rightarrow> Ret (Inl e, lc, w, p)
      | (Inr conn, w) \<Rightarrow>
          go_bind (WrapConn os E lg pick conn (WriteInterval (lc_ConnConfig lc)) w p) (\<lambda>(r, w, p).
            case r of
              Inl e \<Rightarrow> Ret (Inl e, lc, w, p)
            | Inr rawConn \<Rightarrow>
                go_bind (make_backlog (Backlog lc)) (\<lambda>backlog.
                  Ret (Inr (wrapConn L (rawConn_Capabilities rawConn) (pn_LocalAddr conn) (raw_RemoteAddr conn)
                         True (AcceptFilter lc) backlog, rawConn), lc, w, p))))"

definition Listen ::
    "os \<Rightarrow> env \<Rightarrow> log_state \<Rightarrow> (nat list \<Rightarrow> nat option) \<Rightarrow> 'w listen_udp \<Rightarrow> ('q, 'd) lib \<Rightarrow>
     string \<Rightarrow> net_addr option \<Rightarrow> 'w \<Rightarrow> proc \<Rightarrow> ((err + ('q, 'd) supConn \<times> rawConn) \<times> ListenConfig \<times> 'w \<times> proc) go" where
  "Listen os E lg pick listenUDP L network laddr w p =
     ListenConfig_Listen os E lg pick listenUDP L zero_listen_config network laddr w p"

definition WrapListenConn :: "('q, 'd) lib \<Rightarrow> 'r raw_if \<Rightarrow> 'r \<Rightarrow> ListenConfig option \<Rightarrow> ('q, 'd) supConn go" where
  "WrapListenConn L R rawConn lc =
     (let lc = (case lc of None \<Rightarrow> zero_listen_config | Some lc \<Rightarrow> lc) in
      go_bind (make_backlog (Backlog lc)) (\<lambda>backlog.
        Ret (wrapConn L (ri_Capabilities R rawConn) (ri_LocalAddr R rawConn) (ri_RemoteAddr R rawConn)
               True (AcceptFilter lc) backlog)))"

section \<open>Reading from one remote\<close>

text \<open>
  Reading \<open>k\<close> packets with slices of the sizes the read loop uses; each result is the data, the
  out-of-band data and the codepoint.
\<close>

fun sac_read_many :: "'r raw_if \<Rightarrow> nat \<Rightarrow> 'r SingleAddrConn \<Rightarrow> (packet list \<times> 'r SingleAddrConn) go" where
  "sac_read_many R 0 c = Ret ([], c)"
| "sac_read_many R (Suc k) c =
     go_bind (sac_Read R (replicate receiveMTU 0) (replicate oobSize 0) c) (\<lambda>(r, c).
     go_bind (slice_to (sr_p r) (sr_n r)) (\<lambda>d.
     go_bind (slice_to (sr_oob r) (sr_oobN r)) (\<lambda>oob.
     go_bind (sac_read_many R k c) (\<lambda>(ps, c).
       Ret ((d, oob, sr_ecn r) # ps, c)))))"

text \<open>A raw connection whose state is the list of its answers to come.\<close>

definition replays :: "(byte list \<Rightarrow> byte list \<Rightarrow> raw_read) list raw_if \<Rightarrow> bool" where
  "replays R \<longleftrightarrow> (\<forall>p oob ans rds. ri_ReadPacket R p oob (ans # rds) = Ret (ans p oob, rds))"

definition from_own :: "net_addr option \<Rightarrow> net_addr \<Rightarrow> bool" where
  "from_own own a = (case own of None \<Rightarrow> True | Some o' \<Rightarrow> addr_String a = addr_String o')"

lemma sac_Read_delivers:
  assumes "replays R" and "delivers ans a pkt" and c: "sac_base c = ans # rds"
  shows "\<exists>r. sac_Read R (replicate receiveMTU 0) (replicate oobSize 0) c = Ret (r, c\<lparr>sac_base := rds\<rparr>) \<and> sr_err r = None
    \<and> (case (if from_own (sac_addr c) a then pkt else ([], [], ECNUnsupported)) of (d, oob, e) \<Rightarrow>
         slice_to (sr_p r) (sr_n r) = Ret d \<and> slice_to (sr_oob r) (sr_oobN r) = Ret oob \<and> sr_ecn r = e)"
proof -
  let ?b = "replicate receiveMTU 0 :: byte list" and ?o = "replicate oobSize 0 :: byte list"
  have r: "rr_err (ans ?b ?o) = None" "rr_addr (ans ?b ?o) = Some a" "length (rr_b (ans ?b ?o)) = receiveMTU"
    "length (rr_oob (ans ?b ?o)) = oobSize" "0 \<le> rr_n (ans ?b ?o)" "rr_n (ans ?b ?o) \<le> int receiveMTU"
    "0 \<le> rr_oobN (ans ?b ?o)" "rr_oobN (ans ?b ?o) \<le> int oobSize"
    "pkt = (take (nat (rr_n (ans ?b ?o))) (rr_b (ans ?b ?o)), take (nat (rr_oobN (ans ?b ?o))) (rr_oob (ans ?b ?o)), rr_ecn (ans ?b ?o))"
    using assms(2) unfolding delivers_def Let_def by (metis length_replicate order_refl)+
  have read: "ri_ReadPacket R ?b ?o (sac_base c) = Ret (ans ?b ?o, rds)"
    using assms(1) c by (simp add: replays_def)
  show ?thesis
    using r by (cases "sac_addr c") (simp_all add: sac_Read_def read Let_def from_own_def slice_to_def ECNUnsupported_def)
qed

lemma sac_read_many_replay:
  assumes "replays R" and "list_all2 (\<lambda>ans (a, pkt). delivers ans a pkt) rds dgrams"
  shows "sac_base c = rds \<Longrightarrow> sac_read_many R (length dgrams) c
    = Ret (map (\<lambda>(a, pkt). if from_own (sac_addr c) a then pkt else ([], [], ECNUnsupported)) dgrams, c\<lparr>sac_base := []\<rparr>)"
  using assms(2)
proof (induction dgrams arbitrary: rds c rule: list.induct)
  case Nil
  then show ?case by (cases c) simp
next
  case (Cons x dgrams)
  obtain a pkt where x: "x = (a, pkt)" by (cases x) auto
  obtain ans rds' where rds: "rds = ans # rds'" "delivers ans a pkt" "list_all2 (\<lambda>ans (a, pkt). delivers ans a pkt) rds' dgrams"
    using Cons.prems(2) x by (auto simp: list_all2_Cons2)
  have base: "sac_base c = ans # rds'"
    using Cons.prems(1) rds(1) by simp
  note one = sac_Read_delivers [OF assms(1) rds(2) base]
  note rest = Cons.IH [of "c\<lparr>sac_base := rds'\<rparr>" rds', OF _ rds(3)]
  show ?case
    using one rest by (cases "if from_own (sac_addr c) a then pkt else ([], [], ECNUnsupported)") (auto simp: x)
qed

section \<open>Properties\<close>

text \<open>
  C21: A connection for one remote over a shared socket hands out the datagrams of that remote whole and in
  order; a datagram of any other remote becomes an empty read without error, and no byte of it is
  returned.  A connection made by \<open>WrapConnectedConn\<close> hands out every datagram.
\<close>

theorem single_addr_stream:
  assumes "replays R" and "list_all2 (\<lambda>ans (a, pkt). delivers ans a pkt) rds dgrams"
  shows "sac_read_many R (length dgrams) (fst (WrapUnconnectedConn rds (Some own) bc dc w))
      = Ret (map (\<lambda>(a, pkt). if addr_String a = addr_String own then pkt else ([], [], ECNUnsupported)) dgrams,
             \<lparr>sac_base = [], sac_addr = Some own\<rparr>)
    \<and> sac_read_many R (length dgrams) (fst (WrapConnectedConn rds bc dc w))
      = Ret (map snd dgrams, \<lparr>sac_base = [], sac_addr = None\<rparr>)"
  using sac_read_many_replay [OF assms, of "fst (WrapUnconnectedConn rds (Some own) bc dc w)"]
    sac_read_many_replay [OF assms, of "fst (WrapConnectedConn rds bc dc w)"]
  by (simp add: WrapUnconnectedConn_def WrapConnectedConn_def Let_def from_own_def case_prod_unfold)

text \<open>The replaying connection.\<close>

definition replay_if :: "(byte list \<Rightarrow> byte list \<Rightarrow> raw_read) list raw_if" where
  "replay_if =
     \<lparr>ri_ReadPacket = (\<lambda>p oob rds. case rds of ans # rds \<Rightarrow> Ret (ans p oob, rds) | [] \<Rightarrow> Panic NilDereference),
      ri_WritePacket = (\<lambda>p oob g e a r. Ret ((int (length p), int (length oob), None), r)),
      ri_LocalAddr = (\<lambda>_. None), ri_RemoteAddr = (\<lambda>_. None), ri_SetReadDeadline = (\<lambda>t r. (None, r)),
      ri_Close = (\<lambda>r. (None, [])), ri_Capabilities = (\<lambda>_. 0)\<rparr>"

theorem single_addr_stream_witness:
  "sac_read_many replay_if 2 (fst (WrapUnconnectedConn
        (map (\<lambda>(k, b). datagram_read \<lparr>addr_String = k, addr_UDP = None\<rparr> ([b], [], ECT0)) [(''a'', 1), (''b'', 2)])
        (Some \<lparr>addr_String = ''b'', addr_UDP = None\<rparr>) None None ()))
     = Ret ([([], [], ECNUnsupported), ([2], [], ECT0)], \<lparr>sac_base = [], sac_addr = Some \<lparr>addr_String = ''b'', addr_UDP = None\<rparr>\<rparr>)"
proof -
  let ?a = "\<lambda>k. \<lparr>addr_String = k, addr_UDP = None\<rparr>"
  have "replays replay_if"
    by (simp add: replays_def replay_if_def)
  moreover have "list_all2 (\<lambda>ans (a, pkt). delivers ans a pkt)
      (map (\<lambda>(k, b). datagram_read (?a k) ([b], [], ECT0)) [(''a'', 1), (''b'', 2)])
      [(?a ''a'', [1], [], ECT0), (?a ''b'', [2], [], ECT0)]"
    by (simp add: delivers_datagram receiveMTU_def)
  ultimately show ?thesis
    using single_addr_stream [of replay_if _ "[(?a ''a'', [1], [], ECT0), (?a ''b'', [2], [], ECT0)]" "?a ''b''" None None "()"]
    by (simp add: numeral_2_eq_2)
qed

text \<open>
  C26: The outcomes of \<open>Dial\<close>.  An unknown network and a missing remote address are refused before any
  system call; an error of \<open>net.DialUDP\<close> is passed on.  On Linux a socket that accepts the options gives an
  OOB connection without address filter, since the kernel filters for a connected socket, and a socket
  that does not gives an error.
\<close>

theorem dial_outcomes:
  assumes "quiet lg" and "dialUDP network laddr ra w = (Inr conn, w1)" and "udp_sock conn S oerr"
  shows "(n \<notin> {''udp'', ''udp4'', ''udp6''} \<longrightarrow>
      ConnConfig_Dial Linux E lg pick dialUDP dc n laddr raddr w p = Ret (Inl ErrUnknownNetwork, w, p))
    \<and> (n \<in> {''udp'', ''udp4'', ''udp6''} \<longrightarrow>
      ConnConfig_Dial Linux E lg pick dialUDP dc n laddr None w p = Ret (Inl ErrMissingAddr, w, p))
    \<and> (network \<in> {''udp'', ''udp4'', ''udp6''} \<longrightarrow>
      (if linux_ok oerr conn
       then \<exists>c w' p'. ConnConfig_Dial Linux E lg pick dialUDP dc network laddr (Some ra) w p
              = Ret (Inr \<lparr>sac_base = RawOob c, sac_addr = None\<rparr>, w', p')
       else \<exists>e w' p'. ConnConfig_Dial Linux E lg pick dialUDP dc network laddr (Some ra) w p = Ret (Inl e, w', p')))
    \<and> (network \<in> {''udp'', ''udp4'', ''udp6''} \<and> dialUDP network laddr rb w = (Inl de, w2) \<longrightarrow>
      ConnConfig_Dial Linux E lg pick dialUDP dc network laddr (Some rb) w p = Ret (Inl de, w2, p))"
proof -
  let ?w = "apply_buffers (udp_buffered conn) dc w1"
  have "if linux_ok oerr conn
      then \<exists>c w' p'. WrapConn Linux E lg pick conn (WriteInterval dc) ?w p = Ret (Inr (RawOob c), w', p')
      else \<exists>e w' p'. WrapConn Linux E lg pick conn (WriteInterval dc) ?w p = Ret (Inl e, w', p')"
  proof (cases "linux_ok oerr conn")
    case True
    then show ?thesis
      using WrapConn_linux_ok [OF assms(3,1) True, of E pick "WriteInterval dc" ?w p] by metis
  next
    case False
    then show ?thesis
      using WrapConn_linux_fails [OF assms(3,1) False, of E pick "WriteInterval dc" ?w p] by simp
  qed
  then have "if linux_ok oerr conn
       then \<exists>c w' p'. ConnConfig_Dial Linux E lg pick dialUDP dc network laddr (Some ra) w p
              = Ret (Inr \<lparr>sac_base = RawOob c, sac_addr = None\<rparr>, w', p')
       else \<exists>e w' p'. ConnConfig_Dial Linux E lg pick dialUDP dc network laddr (Some ra) w p = Ret (Inl e, w', p')"
    if "network \<in> {''udp'', ''udp4'', ''udp6''}"
    using that assms(2)
    by (auto simp: ConnConfig_Dial_def WrapConnectedConn_def apply_buffers_def Let_def split: if_splits)
  moreover have "n \<notin> {''udp'', ''udp4'', ''udp6''} \<longrightarrow>
      ConnConfig_Dial Linux E lg pick dialUDP dc n laddr raddr w p = Ret (Inl ErrUnknownNetwork, w, p)"
    "n \<in> {''udp'', ''udp4'', ''udp6''} \<longrightarrow>
      ConnConfig_Dial Linux E lg pick dialUDP dc n laddr None w p = Ret (Inl ErrMissingAddr, w, p)"
    "network \<in> {''udp'', ''udp4'', ''udp6''} \<and> dialUDP network laddr rb w = (Inl de, w2) \<longrightarrow>
      ConnConfig_Dial Linux E lg pick dialUDP dc network laddr (Some rb) w p = Ret (Inl de, w2, p)"
    by (simp_all add: ConnConfig_Dial_def)
  ultimately show ?thesis
    by blast
qed

text \<open>Dialing and listening on the kernel of \<open>Sock_Setup\<close>.\<close>

definition mem_dial :: "(sockopt \<Rightarrow> int) sysconn \<Rightarrow> (sockopt \<Rightarrow> int) dial_udp" where
  "mem_dial S network laddr raddr w =
     (if addr_UDP raddr = None then Inl (Errno ''EINVAL'') else Inr (mem_udp S), w)"

definition mem_listen :: "(sockopt \<Rightarrow> int) sysconn \<Rightarrow> (sockopt \<Rightarrow> int) listen_udp" where
  "mem_listen S network laddr w = (Inr (mem_udp S), w)"

lemma mem_linux_ok: "linux_ok (\<lambda>opt. if opt \<in> set [] then Some (Errno ''ENOPROTOOPT'') else None) (mem_udp (mem_kernel l b []))"
  by (simp add: linux_ok_def recv_ok_def)

theorem dial_outcomes_witness:
  "(\<exists>c w' p'. ConnConfig_Dial Linux quiet_env no_log first_fit (mem_dial (mem_kernel 212992 False []))
      zero_config ''udp'' None (Some \<lparr>addr_String = ''a'', addr_UDP = Some [127, 0, 0, 1]\<rparr>) (\<lambda>_. 0) proc0
      = Ret (Inr \<lparr>sac_base = RawOob c, sac_addr = None\<rparr>, w', p'))
   \<and> ConnConfig_Dial Linux quiet_env no_log first_fit (mem_dial (mem_kernel 212992 False []))
      zero_config ''tcp'' None None (\<lambda>_. 0) proc0 = Ret (Inl ErrUnknownNetwork, \<lambda>_. 0, proc0)
   \<and> ConnConfig_Dial Linux quiet_env no_log first_fit (mem_dial (mem_kernel 212992 False []))
      zero_config ''udp'' None (Some \<lparr>addr_String = ''b'', addr_UDP = None\<rparr>) (\<lambda>_. 0) proc0
      = Ret (Inl (Errno ''EINVAL''), \<lambda>_. 0, proc0)"
  using dial_outcomes [where dialUDP = "mem_dial (mem_kernel 212992 False [])" and network = "''udp''" and laddr = None
      and ra = "\<lparr>addr_String = ''a'', addr_UDP = Some [127, 0, 0, 1]\<rparr>" and w = "\<lambda>_. 0" and n = "''tcp''" and E = quiet_env
      and pick = first_fit and dc = zero_config and raddr = None and p = proc0 and conn = "mem_udp (mem_kernel 212992 False [])"
      and rb = "\<lparr>addr_String = ''b'', addr_UDP = None\<rparr>" and de = "Errno ''EINVAL''" and ?w2.0 = "\<lambda>_. 0",
      OF no_log_quiet _ mem_udp_sock]
    mem_linux_ok [of 212992 False] by (simp add: mem_dial_def)



lemma mux_no_room: "fold (mux_dispatch filt 0) kps mux_init = mux_init"
  by (induction kps) (simp_all add: mux_dispatch_def mux_init_def split: prod.splits)

text \<open>
  C39: \<open>WrapListenConn\<close> without a configuration does not use the default backlog: its accept queue has no
  room, so while no goroutine is blocked in \<open>Accept\<close> every datagram of every remote is dropped.
\<close>

theorem wrap_listen_conn_drops:
  assumes "udp_lib L ct cp cl it" and "list_all2 (\<lambda>ans (a, pkt). delivers ans a pkt) rds dgrams"
  shows "\<exists>l0 l. WrapListenConn L R rc None = Ret l0 \<and> readLoop L rds l0 = Ret (True, l)
    \<and> (\<forall>k. map_of (conns l) k = None) \<and> acceptCh l = []"
proof -
  let ?l = "wrapConn L (ri_Capabilities R rc) (ri_LocalAddr R rc) (ri_RemoteAddr R rc) True None 0"
  have f: "isListener ?l" "acceptFilter ?l = None" "acceptCap ?l + parked ?l = 0"
    by (simp_all add: wrapConn_def)
  obtain l where l: "readLoop L rds ?l = Ret (True, l)" "abs_mux ct l = mux_init"
    using udp_lib.readLoop_refines [OF assms wrapConn_inv(1,2) f(1)] f(2,3) wrapConn_inv(3) mux_no_room by metis
  have "map_of (conns l) k = None" for k
    using l(2) by (auto simp: abs_mux_def mux_init_def dest: fun_cong [of _ _ k])
  moreover have "acceptCh l = []"
    using l(2) by (simp add: abs_mux_def mux_init_def)
  ultimately show ?thesis
    using l(1) by (simp add: WrapListenConn_def zero_listen_config_def make_backlog_def)
qed

theorem wrap_listen_conn_drops_witness:
  "\<exists>l0 l. WrapListenConn ref_lib replay_if [] None = Ret l0
    \<and> readLoop ref_lib [datagram_read \<lparr>addr_String = ''a'', addr_UDP = None\<rparr> ([7], [], ECNNon)] l0 = Ret (True, l)
    \<and> (\<forall>k. map_of (conns l) k = None) \<and> acceptCh l = []"
proof -
  let ?a = "\<lparr>addr_String = ''a'', addr_UDP = None\<rparr>"
  have "list_all2 (\<lambda>ans (a, pkt). delivers ans a pkt) [datagram_read ?a ([7], [], ECNNon)] [(?a, [7], [], ECNNon)]"
    by (simp add: delivers_datagram receiveMTU_def)
  from wrap_listen_conn_drops [OF ref.udp_lib_axioms this] show ?thesis .
qed

end
